theory Spec2Isabelle
  imports Complex_Main
begin

section \<open>Python exceptions\<close>

text \<open>
  Every exception the utilities of \<^verbatim>\<open>energym/utils/common.py\<close> can let escape is a
  constructor of \<open>error\<close>; a function that may raise returns \<open>error + 'a\<close> with
  \<open>Inl\<close> for the raise.
\<close>

datatype error =
    ValueError
  | OverflowError
  | IndexError
  | KeyError string
  | TypeError
  | ParseError
  | OSError

section \<open>The \<^verbatim>\<open>datetime\<close> module\<close>

text \<open>
  \<^verbatim>\<open>get_delta_seconds\<close> and \<^verbatim>\<open>get_current_time_info\<close> are a few lines around
  \<^verbatim>\<open>datetime\<close> and \<^verbatim>\<open>timedelta\<close>. The definitions below follow the reference
  implementation of the standard library (\<^verbatim>\<open>Lib/_pydatetime.py\<close>), function by function
  and under its names. Python's \<^verbatim>\<open>//\<close> and \<^verbatim>\<open>%\<close> on integers round towards minus
  infinity, as \<open>div\<close> and \<open>mod\<close> on \<open>int\<close> do.
\<close>

definition MINYEAR :: int where "MINYEAR = 1"
definition MAXYEAR :: int where "MAXYEAR = 9999"
definition MAXORDINAL :: int where "MAXORDINAL = 3652059"

definition DAYS_IN_MONTH :: "int list" where
  "DAYS_IN_MONTH = [-1, 31, 28, 31, 30, 31, 30, 31, 31, 30, 31, 30, 31]"

text \<open>
  \<^verbatim>\<open>_DAYS_BEFORE_MONTH\<close> is built at import time by a loop over
  \<^verbatim>\<open>_DAYS_IN_MONTH[1:]\<close> that appends the running sum before adding each month.
\<close>

fun days_before_month_loop :: "int list \<Rightarrow> int \<Rightarrow> int list \<Rightarrow> int list" where
  "days_before_month_loop acc dbm [] = acc"
| "days_before_month_loop acc dbm (dm # rest) = days_before_month_loop (acc @ [dbm]) (dbm + dm) rest"

definition DAYS_BEFORE_MONTH :: "int list" where
  "DAYS_BEFORE_MONTH = days_before_month_loop [-1] 0 (tl DAYS_IN_MONTH)"

definition is_leap :: "int \<Rightarrow> bool" where
  "is_leap year \<longleftrightarrow> year mod 4 = 0 \<and> (year mod 100 \<noteq> 0 \<or> year mod 400 = 0)"

definition days_before_year :: "int \<Rightarrow> int" where
  "days_before_year year = (let y = year - 1 in y * 365 + y div 4 - y div 100 + y div 400)"

text \<open>
  The two month functions assert \<^verbatim>\<open>1 <= month <= 12\<close>; every call below comes after
  that check, so the list index is in range.
\<close>

definition days_in_month :: "int \<Rightarrow> int \<Rightarrow> int" where
  "days_in_month year month =
     (if month = 2 \<and> is_leap year then 29 else DAYS_IN_MONTH ! nat month)"

definition days_before_month :: "int \<Rightarrow> int \<Rightarrow> int" where
  "days_before_month year month =
     DAYS_BEFORE_MONTH ! nat month + (if month > 2 \<and> is_leap year then 1 else 0)"

definition ymd2ord :: "int \<Rightarrow> int \<Rightarrow> int \<Rightarrow> int" where
  "ymd2ord year month day = days_before_year year + days_before_month year month + day"

definition DI400Y :: int where "DI400Y = days_before_year 401"
definition DI100Y :: int where "DI100Y = days_before_year 101"
definition DI4Y :: int where "DI4Y = days_before_year 5"

definition ord2ymd :: "int \<Rightarrow> int \<times> int \<times> int" where
  "ord2ymd n0 =
     (let n = n0 - 1;
          n400 = n div DI400Y; n = n mod DI400Y;
          year = n400 * 400 + 1;
          n100 = n div DI100Y; n = n mod DI100Y;
          n4 = n div DI4Y; n = n mod DI4Y;
          n1 = n div 365; n = n mod 365;
          year = year + (n100 * 100 + n4 * 4 + n1)
      in if n1 = 4 \<or> n100 = 4 then (year - 1, 12, 31)
         else
           let leapyear = (n1 = 3 \<and> (n4 \<noteq> 24 \<or> n100 = 3));
               month = (n + 50) div 32;
               preceding = DAYS_BEFORE_MONTH ! nat month + (if month > 2 \<and> leapyear then 1 else 0);
               (month, preceding) =
                 (if preceding > n
                  then (month - 1,
                        preceding - (DAYS_IN_MONTH ! nat (month - 1)
                                     + (if month - 1 = 2 \<and> leapyear then 1 else 0)))
                  else (month, preceding));
               n = n - preceding
           in (year, month, n + 1))"

subsection \<open>\<^verbatim>\<open>timedelta\<close>\<close>

record timedelta =
  days :: int
  seconds :: int
  microseconds :: int

text \<open>
  The constructor on integer arguments: carry microseconds into seconds and seconds into
  days, then refuse more than 999999999 days. \<^verbatim>\<open>minutes\<close> and \<^verbatim>\<open>hours\<close> are
  folded into the seconds first.
\<close>

definition timedelta_new :: "int \<Rightarrow> int \<Rightarrow> int \<Rightarrow> int \<Rightarrow> int \<Rightarrow> error + timedelta" where
  "timedelta_new d s us minutes hours =
     (let s = s + minutes * 60 + hours * 3600;
          s = s + us div 1000000; us = us mod 1000000;
          d = d + s div 86400; s = s mod 86400
      in if \<bar>d\<bar> > 999999999 then Inl OverflowError
         else Inr \<lparr>days = d, seconds = s, microseconds = us\<rparr>)"

definition timedelta_add :: "timedelta \<Rightarrow> timedelta \<Rightarrow> error + timedelta" where
  "timedelta_add a b =
     timedelta_new (days a + days b) (seconds a + seconds b) (microseconds a + microseconds b) 0 0"

text \<open>
  \<^verbatim>\<open>total_seconds\<close> is a true division of two integers, which Python rounds once to
  the nearest double. The model gives the exact quotient; wherever it is used below the
  quotient is proved to be an integer below \<open>2 ^ 53\<close>, which a double holds exactly.
\<close>

definition total_seconds :: "timedelta \<Rightarrow> real" where
  "total_seconds t =
     real_of_int ((days t * 86400 + seconds t) * 10 ^ 6 + microseconds t) / 10 ^ 6"

subsection \<open>\<^verbatim>\<open>datetime\<close>\<close>

record datetime =
  year :: int
  month :: int
  day :: int
  hour :: int
  minute :: int
  second :: int
  microsecond :: int

definition check_date_fields :: "int \<Rightarrow> int \<Rightarrow> int \<Rightarrow> bool" where
  "check_date_fields y m d \<longleftrightarrow>
     MINYEAR \<le> y \<and> y \<le> MAXYEAR \<and> 1 \<le> m \<and> m \<le> 12 \<and> 1 \<le> d \<and> d \<le> days_in_month y m"

definition check_time_fields :: "int \<Rightarrow> int \<Rightarrow> int \<Rightarrow> int \<Rightarrow> bool" where
  "check_time_fields h mi s us \<longleftrightarrow>
     0 \<le> h \<and> h \<le> 23 \<and> 0 \<le> mi \<and> mi \<le> 59 \<and> 0 \<le> s \<and> s \<le> 59 \<and> 0 \<le> us \<and> us \<le> 999999"

definition datetime_new :: "int \<Rightarrow> int \<Rightarrow> int \<Rightarrow> int \<Rightarrow> int \<Rightarrow> int \<Rightarrow> int \<Rightarrow> error + datetime" where
  "datetime_new y m d h mi s us =
     (if \<not> check_date_fields y m d then Inl ValueError
      else if \<not> check_time_fields h mi s us then Inl ValueError
      else Inr \<lparr>year = y, month = m, day = d, hour = h, minute = mi, second = s,
                microsecond = us\<rparr>)"

definition toordinal :: "datetime \<Rightarrow> int" where
  "toordinal dt = ymd2ord (year dt) (month dt) (day dt)"

text \<open>
  \<^verbatim>\<open>datetime.__add__\<close>: the date as days and the time as seconds go into one
  \<^verbatim>\<open>timedelta\<close>, the other operand is added, and the sum is read back through
  \<^verbatim>\<open>date.fromordinal\<close> if its days are a valid ordinal; otherwise \<^verbatim>\<open>OverflowError\<close>.
\<close>

definition datetime_add :: "datetime \<Rightarrow> timedelta \<Rightarrow> error + datetime" where
  "datetime_add self other =
     (case timedelta_new (toordinal self) (second self) (microsecond self) (minute self) (hour self) of
        Inl e \<Rightarrow> Inl e
      | Inr delta0 \<Rightarrow>
         (case timedelta_add delta0 other of
            Inl e \<Rightarrow> Inl e
          | Inr delta \<Rightarrow>
             (let h = seconds delta div 3600; rem = seconds delta mod 3600;
                  mi = rem div 60; s = rem mod 60
              in if 0 < days delta \<and> days delta \<le> MAXORDINAL
                 then (case ord2ymd (days delta) of
                         (y, m, d) \<Rightarrow> datetime_new y m d h mi s (microseconds delta))
                 else Inl OverflowError)))"

text \<open>\<^verbatim>\<open>datetime.__sub__\<close> on two naive datetimes.\<close>

definition datetime_sub :: "datetime \<Rightarrow> datetime \<Rightarrow> error + timedelta" where
  "datetime_sub self other =
     (let days1 = toordinal self; days2 = toordinal other;
          secs1 = second self + minute self * 60 + hour self * 3600;
          secs2 = second other + minute other * 60 + hour other * 3600
      in timedelta_new (days1 - days2) (secs1 - secs2) (microsecond self - microsecond other) 0 0)"

section \<open>\<^verbatim>\<open>get_delta_seconds\<close>\<close>

text \<open>
  \<^verbatim>\<open>
  startTime = datetime(year, st_mon, st_day, 0, 0, 0)
  endTime = datetime(year, end_mon, end_day, 23, 0, 0) + timedelta(0, 3600)
  delta_sec = (endTime - startTime).total_seconds()
  return delta_sec
  \<close>
\<close>

definition get_delta_seconds :: "int \<Rightarrow> int \<Rightarrow> int \<Rightarrow> int \<Rightarrow> int \<Rightarrow> error + real" where
  "get_delta_seconds yr st_mon st_day end_mon end_day =
     (case datetime_new yr st_mon st_day 0 0 0 0 of
        Inl e \<Rightarrow> Inl e
      | Inr startTime \<Rightarrow>
         (case datetime_new yr end_mon end_day 23 0 0 0 of
            Inl e \<Rightarrow> Inl e
          | Inr end23 \<Rightarrow>
             (case timedelta_new 0 3600 0 0 0 of
                Inl e \<Rightarrow> Inl e
              | Inr hour1 \<Rightarrow>
                 (case datetime_add end23 hour1 of
                    Inl e \<Rightarrow> Inl e
                  | Inr endTime \<Rightarrow>
                     (case datetime_sub endTime startTime of
                        Inl e \<Rightarrow> Inl e
                      | Inr delta \<Rightarrow> Inr (total_seconds delta))))))"

subsection \<open>The days of an interval, counted on the calendar\<close>

text \<open>
  The specification measures the result in days "from \<open>(m1, d1)\<close> to \<open>(m2, d2)\<close>
  inclusive". That number is defined here without any day arithmetic: \<open>year_dates\<close>
  lists every (month, day) of the year in calendar order, and \<open>days_inclusive\<close> counts
  the entries between the two dates, both included.
\<close>

definition date_le :: "int \<times> int \<Rightarrow> int \<times> int \<Rightarrow> bool" where
  "date_le a b \<longleftrightarrow> fst a < fst b \<or> (fst a = fst b \<and> snd a \<le> snd b)"

definition year_dates :: "int \<Rightarrow> (int \<times> int) list" where
  "year_dates y = concat (map (\<lambda>m. map (Pair m) [1..days_in_month y m]) [1..12])"

definition days_inclusive :: "int \<Rightarrow> int \<times> int \<Rightarrow> int \<times> int \<Rightarrow> nat" where
  "days_inclusive y a b = length (filter (\<lambda>p. date_le a p \<and> date_le p b) (year_dates y))"

text \<open>The number of a date within its year, as \<open>ymd2ord\<close> adds it to the days before the year.\<close>

definition doy :: "int \<Rightarrow> int \<times> int \<Rightarrow> int" where
  "doy y p = days_before_month y (fst p) + snd p"

section \<open>\<^verbatim>\<open>get_current_time_info\<close>\<close>

text \<open>
  The model object is read only through \<^verbatim>\<open>epm.RunPeriod[0]['begin_month']\<close> and
  \<^verbatim>\<open>epm.RunPeriod[0]['begin_day_of_month']\<close>: a sequence indexed at 0 whose entries are
  indexed by field name. Indexing an empty sequence raises \<^verbatim>\<open>IndexError\<close>, a missing
  field raises \<^verbatim>\<open>KeyError\<close>.
\<close>

type_synonym run_period = "string \<rightharpoonup> int"

record Epm =
  RunPeriod :: "run_period list"

definition list_getitem0 :: "'a list \<Rightarrow> error + 'a" where
  "list_getitem0 xs = (case xs of [] \<Rightarrow> Inl IndexError | x # _ \<Rightarrow> Inr x)"

definition dict_getitem :: "(string \<rightharpoonup> 'v) \<Rightarrow> string \<Rightarrow> error + 'v" where
  "dict_getitem d k = (case d k of None \<Rightarrow> Inl (KeyError k) | Some v \<Rightarrow> Inr v)"

text \<open>
  \<^verbatim>\<open>
  start_date = datetime(year=sim_year,
                        month=epm.RunPeriod[0]['begin_month'],
                        day=epm.RunPeriod[0]['begin_day_of_month'])
  current_date = start_date + timedelta(seconds=sec_elapsed)
  return (current_date.day, current_date.month, current_date.hour)
  \<close>
  The arguments are evaluated left to right before the constructor checks them.
  \<^verbatim>\<open>sec_elapsed\<close> is an \<^verbatim>\<open>int\<close>, as the docstring says, and so is every field read.
\<close>

definition get_current_time_info :: "Epm \<Rightarrow> int \<Rightarrow> int \<Rightarrow> error + int \<times> int \<times> int" where
  "get_current_time_info epm sec_elapsed sim_year =
     (case list_getitem0 (RunPeriod epm) of
        Inl e \<Rightarrow> Inl e
      | Inr rp0 \<Rightarrow>
     (case dict_getitem rp0 ''begin_month'' of
        Inl e \<Rightarrow> Inl e
      | Inr begin_month \<Rightarrow>
     (case list_getitem0 (RunPeriod epm) of
        Inl e \<Rightarrow> Inl e
      | Inr rp1 \<Rightarrow>
     (case dict_getitem rp1 ''begin_day_of_month'' of
        Inl e \<Rightarrow> Inl e
      | Inr begin_day \<Rightarrow>
     (case datetime_new sim_year begin_month begin_day 0 0 0 0 of
        Inl e \<Rightarrow> Inl e
      | Inr start_date \<Rightarrow>
     (case timedelta_new 0 sec_elapsed 0 0 0 of
        Inl e \<Rightarrow> Inl e
      | Inr td \<Rightarrow>
     (case datetime_add start_date td of
        Inl e \<Rightarrow> Inl e
      | Inr current_date \<Rightarrow>
          Inr (day current_date, month current_date, hour current_date))))))))"

section \<open>\<^verbatim>\<open>parse_variables\<close>\<close>

text \<open>
  An \<^verbatim>\<open>xml.etree.ElementTree.Element\<close>: its tag, its attribute dictionary and its
  child elements in document order. \<^verbatim>\<open>ET.parse(var_file).getroot()\<close> reads the file
  system and runs the XML parser; its outcome is the argument of the model: the root element,
  or the exception raised (\<^verbatim>\<open>ParseError\<close> for a document that is not well-formed,
  \<^verbatim>\<open>OSError\<close> for a file that cannot be read).
\<close>

datatype element = Element (tag: string) (attrib: "(string \<times> string) list") (children: "element list")

definition findall :: "string \<Rightarrow> element \<Rightarrow> element list" where
  "findall t e = filter (\<lambda>c. tag c = t) (children e)"

text \<open>
  \<^verbatim>\<open>
  variables = []
  for var in root.findall('variable'):
      if var.attrib['source'] == 'EnergyPlus':
          variables.append(var[0].attrib['type'])
  return variables
  \<close>
\<close>

fun parse_variables_loop :: "element list \<Rightarrow> string list \<Rightarrow> error + string list" where
  "parse_variables_loop [] variables = Inr variables"
| "parse_variables_loop (var # rest) variables =
     (case dict_getitem (map_of (attrib var)) ''source'' of
        Inl e \<Rightarrow> Inl e
      | Inr source \<Rightarrow>
          if source = ''EnergyPlus''
          then (case list_getitem0 (children var) of
                  Inl e \<Rightarrow> Inl e
                | Inr child \<Rightarrow>
                    (case dict_getitem (map_of (attrib child)) ''type'' of
                       Inl e \<Rightarrow> Inl e
                     | Inr ty \<Rightarrow> parse_variables_loop rest (variables @ [ty])))
          else parse_variables_loop rest variables)"

definition parse_variables :: "error + element \<Rightarrow> error + string list" where
  "parse_variables parsed =
     (case parsed of
        Inl e \<Rightarrow> Inl e
      | Inr tree_root \<Rightarrow> parse_variables_loop (findall ''variable'' tree_root) [])"

subsection \<open>What the specification says of the variable file\<close>

text \<open>
  A \<open>variable\<close> element is matched when its \<open>source\<close> attribute is the string
  \<open>EnergyPlus\<close>. It is as the schema expects when it has a \<open>source\<close> attribute and, if
  matched, a first child with a \<open>type\<close> attribute; \<open>child_type\<close> is that value.
\<close>

definition matched :: "element \<Rightarrow> bool" where
  "matched v \<longleftrightarrow> map_of (attrib v) ''source'' = Some ''EnergyPlus''"

definition variable_ok :: "element \<Rightarrow> bool" where
  "variable_ok v \<longleftrightarrow>
     map_of (attrib v) ''source'' \<noteq> None \<and>
     (matched v \<longrightarrow> (case children v of [] \<Rightarrow> False
                      | c # _ \<Rightarrow> map_of (attrib c) ''type'' \<noteq> None))"

definition child_type :: "element \<Rightarrow> string" where
  "child_type v = (case children v of [] \<Rightarrow> [] | c # _ \<Rightarrow> (case map_of (attrib c) ''type'' of None \<Rightarrow> [] | Some ty \<Rightarrow> ty))"

section \<open>\<^verbatim>\<open>create_variable_weather\<close>\<close>

text \<open>
  The weather series is a table of named columns over a common number of rows, the
  \<^verbatim>\<open>pandas\<close> frame that \<^verbatim>\<open>get_weather_series\<close> hands out as a copy. Cell values are
  doubles; they are modelled as reals, which is exact for what is proved below: which cells
  an addition touches, and that adding a zero keeps the value.
\<close>

record dataframe =
  nrows :: nat
  cols :: "(string \<times> real list) list"

text \<open>
  What the function reads and writes beyond its arguments: the series held by the
  \<^verbatim>\<open>weather_data\<close> object, the files written by \<^verbatim>\<open>to_epw\<close> (by path, with the series
  they hold), the paths at which the file system lets a file be written, and the standard
  normal draws that \<^verbatim>\<open>numpy\<close>'s process-wide generator will deliver next.
\<close>

record world =
  weather_series :: dataframe
  files :: "string \<rightharpoonup> dataframe"
  writable :: "string \<Rightarrow> bool"
  rng :: "nat \<Rightarrow> real"

text \<open>The mean and the deviation are Python numbers, an \<^verbatim>\<open>int\<close> or a \<^verbatim>\<open>float\<close>.\<close>

datatype pynum = PyInt int | PyFloat real

fun num_val :: "pynum \<Rightarrow> real" where
  "num_val (PyInt i) = real_of_int i"
| "num_val (PyFloat r) = r"

text \<open>\<^verbatim>\<open>str\<close> of an \<^verbatim>\<open>int\<close>: the decimal digits, with a minus sign when negative.\<close>

definition digit_char :: "nat \<Rightarrow> char" where
  "digit_char n = ''0123456789'' ! n"

fun str_nat :: "nat \<Rightarrow> string" where
  "str_nat n = (if n < 10 then [digit_char n] else str_nat (n div 10) @ [digit_char (n mod 10)])"

declare str_nat.simps [simp del]

definition str_int :: "int \<Rightarrow> string" where
  "str_int i = (if i < 0 then CHR ''-'' # str_nat (nat (- i)) else str_nat (nat i))"

text \<open>
  \<^verbatim>\<open>str\<close> of a \<^verbatim>\<open>float\<close> is the shortest decimal string that reads back as the same
  double; it is a parameter \<open>repr_float\<close> of the model.
\<close>

fun py_str :: "(real \<Rightarrow> string) \<Rightarrow> pynum \<Rightarrow> string" where
  "py_str repr_float (PyInt i) = str_int i"
| "py_str repr_float (PyFloat r) = repr_float r"

text \<open>\<^verbatim>\<open>s.split(sep)[0]\<close>: the text before the first occurrence of \<open>sep\<close>, all of \<open>s\<close> if there is none.\<close>

fun split_first :: "string \<Rightarrow> string \<Rightarrow> string" where
  "split_first sep [] = []"
| "split_first sep (c # cs) =
     (if take (length sep) (c # cs) = sep then [] else c # split_first sep cs)"

text \<open>
  \<^verbatim>\<open>np.random.normal(mu, std, shape)\<close> refuses a negative deviation and otherwise fills
  the array row by row with \<open>mu + std * z\<close>, one fresh standard normal draw \<open>z\<close> per cell.
\<close>

definition random_normal ::
  "real \<Rightarrow> real \<Rightarrow> nat \<times> nat \<Rightarrow> (nat \<Rightarrow> real) \<Rightarrow> error + real list list \<times> (nat \<Rightarrow> real)" where
  "random_normal mu std shape g =
     (case shape of (n, k) \<Rightarrow>
        if std < 0 then Inl ValueError
        else Inr (map (\<lambda>i. map (\<lambda>j. mu + std * g (i * k + j)) [0..<k]) [0..<n],
                  \<lambda>i. g (i + n * k)))"

text \<open>
  \<^verbatim>\<open>df[columns] += noise\<close>: the selection \<^verbatim>\<open>df[columns]\<close> raises \<^verbatim>\<open>KeyError\<close> for a
  name that is no column; the noise is added to the selected columns cell by cell; the sums
  are assigned back, column by column in the order of \<open>columns\<close>. The assignment raises
  \<^verbatim>\<open>ValueError\<close> when \<open>columns\<close> names a column twice, before any column is assigned.
\<close>

definition df_getcol :: "dataframe \<Rightarrow> string \<Rightarrow> error + real list" where
  "df_getcol df c = dict_getitem (map_of (cols df)) c"

definition df_setcol :: "dataframe \<Rightarrow> string \<Rightarrow> real list \<Rightarrow> dataframe" where
  "df_setcol df c vals = df\<lparr>cols := map (\<lambda>(n, v). if n = c then (n, vals) else (n, v)) (cols df)\<rparr>"

fun df_select :: "dataframe \<Rightarrow> string list \<Rightarrow> error + real list list" where
  "df_select df [] = Inr []"
| "df_select df (c # cs) =
     (case df_getcol df c of
        Inl e \<Rightarrow> Inl e
      | Inr v \<Rightarrow> (case df_select df cs of Inl e \<Rightarrow> Inl e | Inr vs \<Rightarrow> Inr (v # vs)))"

definition add_noise :: "real list list \<Rightarrow> real list list \<Rightarrow> real list list" where
  "add_noise selected noise =
     map (\<lambda>(j, v). map (\<lambda>(i, x). x + noise ! i ! j) (zip [0..<length v] v))
         (zip [0..<length selected] selected)"

fun df_assign :: "dataframe \<Rightarrow> string list \<Rightarrow> real list list \<Rightarrow> dataframe" where
  "df_assign df (c # cs) (v # vs) = df_assign (df_setcol df c v) cs vs"
| "df_assign df _ _ = df"

definition df_iadd :: "dataframe \<Rightarrow> string list \<Rightarrow> real list list \<Rightarrow> error + dataframe" where
  "df_iadd df columns noise =
     (case df_select df columns of
        Inl e \<Rightarrow> Inl e
      | Inr selected \<Rightarrow>
          if \<not> distinct columns then Inl ValueError
          else Inr (df_assign df columns (add_noise selected noise)))"

text \<open>
  \<^verbatim>\<open>
  if variation is None:
      return None
  else:
      df = weather_data.get_weather_series()
      shape = (df.shape[0], len(columns))
      mu, std = variation
      noise = np.random.normal(mu, std, shape)
      df[columns] += noise
      weather_data.set_weather_series(df)
      filename = original_epw_file.split('.epw')[0]
      filename += '_Random_%s_%s.epw' % (str(mu), str(std))
      weather_data.to_epw(filename)
      return filename
  \<close>
  The result is the returned value (\<open>None\<close> for Python's \<^verbatim>\<open>None\<close>) or the exception,
  together with the world after the call. \<^verbatim>\<open>to_epw\<close> raises \<^verbatim>\<open>OSError\<close> when the file
  cannot be written at the path; the series of the weather object has been replaced by then.
\<close>

definition create_variable_weather ::
  "(real \<Rightarrow> string) \<Rightarrow> world \<Rightarrow> string \<Rightarrow> string list \<Rightarrow> (pynum \<times> pynum) option
     \<Rightarrow> (error + string option) \<times> world" where
  "create_variable_weather repr_float w original_epw_file columns variation =
     (case variation of
        None \<Rightarrow> (Inr None, w)
      | Some (mu, std) \<Rightarrow>
          (let df = weather_series w;
               shape = (nrows df, length columns)
           in case random_normal (num_val mu) (num_val std) shape (rng w) of
                Inl e \<Rightarrow> (Inl e, w)
              | Inr (noise, g) \<Rightarrow>
                  (let w1 = w\<lparr>rng := g\<rparr>
                   in case df_iadd df columns noise of
                        Inl e \<Rightarrow> (Inl e, w1)
                      | Inr df' \<Rightarrow>
                          (let w2 = w1\<lparr>weather_series := df'\<rparr>;
                               filename = split_first ''.epw'' original_epw_file;
                               filename = filename @ ''_Random_'' @ py_str repr_float mu
                                            @ ''_'' @ py_str repr_float std @ ''.epw'';
                               w3 = w2\<lparr>files := (files w2)(filename \<mapsto> df')\<rparr>
                           in if writable w2 filename then (Inr (Some filename), w3)
                              else (Inl OSError, w2)))))"

text \<open>
  A frame is well formed when its column names are distinct and every column has as many
  cells as the frame has rows.
\<close>

definition df_wf :: "dataframe \<Rightarrow> bool" where
  "df_wf df \<longleftrightarrow>
     distinct (map fst (cols df)) \<and> list_all (\<lambda>(n, v). length v = nrows df) (cols df)"

section \<open>\<^verbatim>\<open>Logger.getLogger\<close>\<close>

text \<open>
  The method configures a logger of the \<^verbatim>\<open>logging\<close> module, whose registry is
  process-wide state. The model follows \<^verbatim>\<open>Lib/logging/__init__.py\<close>: the root logger, the
  manager's \<^verbatim>\<open>loggerDict\<close> of loggers and placeholders by name, and the parent links that
  \<^verbatim>\<open>getEffectiveLevel\<close> walks. A logger object is referred to by its name.
\<close>

record handler =
  hlevel :: int
  fmt :: string

datatype logger_ref = Root | Named string

record logger =
  parent :: "logger_ref option"
  level :: int
  handlers :: "handler list"
  propagate :: bool

datatype dict_entry = LoggerEntry logger | PlaceHolder "string list"

record logging =
  root_logger :: logger
  loggerDict :: "string \<rightharpoonup> dict_entry"

definition NOTSET :: int where "NOTSET = 0"
definition WARNING :: int where "WARNING = 30"

text \<open>The module as imported: a root logger at \<^verbatim>\<open>WARNING\<close> and an empty dictionary.\<close>

definition logging_initial :: logging where
  "logging_initial =
     \<lparr>root_logger = \<lparr>parent = None, level = WARNING, handlers = [], propagate = True\<rparr>,
      loggerDict = Map.empty\<rparr>"

definition new_logger :: logger where
  "new_logger = \<lparr>parent = None, level = NOTSET, handlers = [], propagate = True\<rparr>"

fun ref_name :: "logger_ref \<Rightarrow> string" where
  "ref_name Root = ''root''"
| "ref_name (Named n) = n"

fun lookup_logger :: "logging \<Rightarrow> logger_ref \<Rightarrow> logger option" where
  "lookup_logger st Root = Some (root_logger st)"
| "lookup_logger st (Named n) =
     (case loggerDict st n of Some (LoggerEntry l) \<Rightarrow> Some l | _ \<Rightarrow> None)"

fun update_logger :: "logging \<Rightarrow> logger_ref \<Rightarrow> (logger \<Rightarrow> logger) \<Rightarrow> logging" where
  "update_logger st Root f = st\<lparr>root_logger := f (root_logger st)\<rparr>"
| "update_logger st (Named n) f =
     (case loggerDict st n of
        Some (LoggerEntry l) \<Rightarrow> st\<lparr>loggerDict := (loggerDict st)(n \<mapsto> LoggerEntry (f l))\<rparr>
      | _ \<Rightarrow> st)"

text \<open>
  \<^verbatim>\<open>_fixupParents\<close> walks the dotted prefixes of the name from the longest:
  \<^verbatim>\<open>i = name.rfind(".")\<close>, then \<^verbatim>\<open>i = name.rfind(".", 0, i - 1)\<close> while \<^verbatim>\<open>i > 0\<close>.
  \<open>prefix_candidates s e skip\<close> scans the positions below \<open>e\<close> downwards; \<open>skip\<close> says
  that the position just below the last dot found is outside the next search.
\<close>

fun prefix_candidates :: "string \<Rightarrow> nat \<Rightarrow> bool \<Rightarrow> string list" where
  "prefix_candidates s 0 skip = []"
| "prefix_candidates s (Suc e) skip =
     (if \<not> skip \<and> s ! e = CHR ''.''
      then (if e > 0 then take e s # prefix_candidates s e True else [])
      else prefix_candidates s e False)"

fun fixup_parents_loop ::
  "string list \<Rightarrow> string \<Rightarrow> (string \<rightharpoonup> dict_entry) \<Rightarrow> logger_ref option \<times> (string \<rightharpoonup> dict_entry)" where
  "fixup_parents_loop [] aname d = (None, d)"
| "fixup_parents_loop (substr # rest) aname d =
     (case d substr of
        None \<Rightarrow> fixup_parents_loop rest aname (d(substr \<mapsto> PlaceHolder [aname]))
      | Some (LoggerEntry obj) \<Rightarrow> (Some (Named substr), d)
      | Some (PlaceHolder ms) \<Rightarrow>
          fixup_parents_loop rest aname
            (d(substr \<mapsto> PlaceHolder (if aname \<in> set ms then ms else ms @ [aname]))))"

definition fixupParents :: "string \<Rightarrow> logging \<Rightarrow> logging" where
  "fixupParents aname st =
     (case fixup_parents_loop (prefix_candidates aname (length aname) False) aname (loggerDict st) of
        (rv, d) \<Rightarrow>
          update_logger (st\<lparr>loggerDict := d\<rparr>) (Named aname)
            (\<lambda>l. l\<lparr>parent := Some (case rv of None \<Rightarrow> Root | Some r \<Rightarrow> r)\<rparr>))"

text \<open>
  \<^verbatim>\<open>_fixupChildren\<close>: every logger \<open>c\<close> recorded in the placeholder whose parent is not
  already below the new logger gets the new logger as parent, and the new logger takes over
  the parent \<open>c\<close> had.
\<close>

definition fixup_child :: "string \<Rightarrow> string \<Rightarrow> logging \<Rightarrow> logging" where
  "fixup_child aname c st =
     (case lookup_logger st (Named c) of
        None \<Rightarrow> st
      | Some cl \<Rightarrow>
          (case parent cl of
             None \<Rightarrow> st
           | Some p \<Rightarrow>
               if take (length aname) (ref_name p) \<noteq> aname
               then update_logger
                      (update_logger st (Named aname) (\<lambda>l. l\<lparr>parent := Some p\<rparr>))
                      (Named c) (\<lambda>l. l\<lparr>parent := Some (Named aname)\<rparr>)
               else st))"

definition fixupChildren :: "string list \<Rightarrow> string \<Rightarrow> logging \<Rightarrow> logging" where
  "fixupChildren ph aname st = fold (fixup_child aname) ph st"

definition Manager_getLogger :: "logging \<Rightarrow> string \<Rightarrow> logging" where
  "Manager_getLogger st name =
     (case loggerDict st name of
        Some (LoggerEntry rv) \<Rightarrow> st
      | Some (PlaceHolder ph) \<Rightarrow>
          fixupParents name
            (fixupChildren ph name
               (st\<lparr>loggerDict := (loggerDict st)(name \<mapsto> LoggerEntry new_logger)\<rparr>))
      | None \<Rightarrow>
          fixupParents name
            (st\<lparr>loggerDict := (loggerDict st)(name \<mapsto> LoggerEntry new_logger)\<rparr>))"

text \<open>\<^verbatim>\<open>logging.getLogger(name)\<close>: the root logger for an empty name or the root's own name.\<close>

definition logging_getLogger :: "logging \<Rightarrow> string \<Rightarrow> logger_ref \<times> logging" where
  "logging_getLogger st name =
     (if name = [] \<or> name = ''root'' then (Root, st)
      else (Named name, Manager_getLogger st name))"

text \<open>
  \<^verbatim>\<open>logging.Formatter(fmt)\<close> keeps \<^verbatim>\<open>fmt or '%(message)s'\<close>, so an empty format is
  replaced by the default one, and then validates what it keeps: \<^verbatim>\<open>ValueError\<close> is raised
  unless the validation pattern of the \<open>%\<close> style, a \<open>%(name)\<close> field with its
  conversion, is found in it. The search for that pattern is a regular expression of the
  library over Unicode text; it is the parameter \<open>validation_search\<close> of the model.
\<close>

definition default_format :: string where
  "default_format = ''%(message)s''"

definition Formatter_new :: "(string \<Rightarrow> bool) \<Rightarrow> string \<Rightarrow> error + string" where
  "Formatter_new validation_search f =
     (let kept = (if f = [] then default_format else f)
      in if validation_search kept then Inr kept else Inl ValueError)"

text \<open>\<^verbatim>\<open>_checkLevel\<close>: an \<^verbatim>\<open>int\<close> as it is, a \<^verbatim>\<open>str\<close> through \<^verbatim>\<open>_nameToLevel\<close>.\<close>

datatype level_arg = LevelInt int | LevelName string

definition nameToLevel :: "(string \<times> int) list" where
  "nameToLevel = [(''CRITICAL'', 50), (''FATAL'', 50), (''ERROR'', 40), (''WARN'', 30),
                  (''WARNING'', 30), (''INFO'', 20), (''DEBUG'', 10), (''NOTSET'', 0)]"

fun checkLevel :: "level_arg \<Rightarrow> error + int" where
  "checkLevel (LevelInt i) = Inr i"
| "checkLevel (LevelName s) =
     (case map_of nameToLevel s of None \<Rightarrow> Inl ValueError | Some v \<Rightarrow> Inr v)"

text \<open>
  \<^verbatim>\<open>
  logger = logging.getLogger(name)
  consoleHandler = logging.StreamHandler()
  consoleHandler.setFormatter(logging.Formatter(formatter))
  logger.addHandler(consoleHandler)
  logger.setLevel(level)
  logger.propagate = False
  return logger
  \<close>
  The handler is a new object at every call, so \<^verbatim>\<open>addHandler\<close>, which skips a handler
  the logger already holds, always appends it.
\<close>

definition getLogger ::
  "(string \<Rightarrow> bool) \<Rightarrow> logging \<Rightarrow> string \<Rightarrow> level_arg \<Rightarrow> string
     \<Rightarrow> (error + logger_ref) \<times> logging" where
  "getLogger validation_search st name lvl formatter =
     (case logging_getLogger st name of
        (lg, st1) \<Rightarrow>
          (case Formatter_new validation_search formatter of
             Inl e \<Rightarrow> (Inl e, st1)
           | Inr f \<Rightarrow>
               (let consoleHandler = \<lparr>hlevel = NOTSET, fmt = f\<rparr>;
                    st2 = update_logger st1 lg (\<lambda>l. l\<lparr>handlers := handlers l @ [consoleHandler]\<rparr>)
                in case checkLevel lvl of
                     Inl e \<Rightarrow> (Inl e, st2)
                   | Inr v \<Rightarrow>
                       (let st3 = update_logger st2 lg (\<lambda>l. l\<lparr>level := v\<rparr>);
                            st4 = update_logger st3 lg (\<lambda>l. l\<lparr>propagate := False\<rparr>)
                        in (Inr lg, st4)))))"

text \<open>
  \<^verbatim>\<open>getEffectiveLevel\<close> walks up the parents to the first level that is not 0. The walk
  is bounded by \<open>fuel\<close>; \<open>None\<close> means the bound was reached.
\<close>

fun getEffectiveLevel :: "nat \<Rightarrow> logging \<Rightarrow> logger_ref option \<Rightarrow> int option" where
  "getEffectiveLevel fuel st None = Some NOTSET"
| "getEffectiveLevel 0 st (Some r) = None"
| "getEffectiveLevel (Suc fuel) st (Some r) =
     (case lookup_logger st r of
        None \<Rightarrow> None
      | Some l \<Rightarrow> if level l \<noteq> 0 then Some (level l) else getEffectiveLevel fuel st (parent l))"

text \<open>
  Two loggers have the same settings when they agree on all but their parent, and two states
  of the module hold the same loggers when every name refers to no logger in both or to
  loggers with the same settings.
\<close>

definition same_settings :: "logger \<Rightarrow> logger \<Rightarrow> bool" where
  "same_settings a b \<longleftrightarrow> level a = level b \<and> handlers a = handlers b \<and> propagate a = propagate b"

definition same_loggers :: "logging \<Rightarrow> logging \<Rightarrow> bool" where
  "same_loggers st st' \<longleftrightarrow>
     (\<forall>r. rel_option same_settings (lookup_logger st r) (lookup_logger st' r))"

section \<open>Calendar arithmetic\<close>

text \<open>
  Facts about the proleptic Gregorian ordinal: the month table, the length of a year, and
  that \<open>ord2ymd\<close> inverts \<open>ymd2ord\<close> on valid dates.
\<close>

lemma DBM_eval: "DAYS_BEFORE_MONTH = [-1, 0, 31, 59, 90, 120, 151, 181, 212, 243, 273, 304, 334]"
  by (simp add: DAYS_BEFORE_MONTH_def DAYS_IN_MONTH_def)

lemma DI_eval: "DI400Y = 146097" "DI100Y = 36524" "DI4Y = 1461"
  by (simp_all add: DI400Y_def DI100Y_def DI4Y_def days_before_year_def)


lemma div_step:
  fixes y k :: int
  assumes "0 < k"
  shows "y div k = (y - 1) div k + (if y mod k = 0 then 1 else 0)"
proof -
  define q where "q = (y - 1) div k"
  define r where "r = (y - 1) mod k"
  have r: "0 \<le> r" "r < k" using assms by (simp_all add: r_def)
  have y: "y = k * q + (r + 1)" by (simp add: q_def r_def)
  show ?thesis
  proof (cases "r + 1 = k")
    case True
    then have y': "y = k * (q + 1) + 0" using y by (simp add: algebra_simps)
    have "y div k = q + 1" using y' assms by (intro int_div_pos_eq[where r=0]) auto
    moreover have "y mod k = 0" using y' by simp
    ultimately show ?thesis by (simp add: q_def)
  next
    case False
    then have r1: "0 \<le> r + 1" "r + 1 < k" using r by auto
    have "y div k = q" using y r1 by (intro int_div_pos_eq[where r="r+1"]) auto
    moreover have "y mod k = r + 1" using y r1 by (intro int_mod_pos_eq[where q=q]) auto
    ultimately show ?thesis using r by (simp add: q_def)
  qed
qed

lemma mod_400_100: 
  assumes "(y::int) mod 400 = 0" shows "y mod 100 = 0"
proof -
  have "400 dvd y" using assms by (simp add: dvd_eq_mod_eq_0)
  moreover have "(100::int) dvd 400" by simp
  ultimately have "100 dvd y" using dvd_trans by blast
  then show ?thesis by (simp add: dvd_eq_mod_eq_0)
qed

lemma mod_100_4: 
  assumes "(y::int) mod 100 = 0" shows "y mod 4 = 0"
proof -
  have "100 dvd y" using assms by (simp add: dvd_eq_mod_eq_0)
  moreover have "(4::int) dvd 100" by simp
  ultimately have "4 dvd y" using dvd_trans by blast
  then show ?thesis by (simp add: dvd_eq_mod_eq_0)
qed

lemma dby_Suc: "days_before_year (y + 1) = days_before_year y + (if is_leap y then 366 else 365)"
proof -
  have e4: "y div 4 = (y - 1) div 4 + (if y mod 4 = 0 then 1 else 0)"
    by (rule div_step) simp
  have e100: "y div 100 = (y - 1) div 100 + (if y mod 100 = 0 then 1 else 0)"
    by (rule div_step) simp
  have e400: "y div 400 = (y - 1) div 400 + (if y mod 400 = 0 then 1 else 0)"
    by (rule div_step) simp
  have "days_before_year (y + 1) = y * 365 + y div 4 - y div 100 + y div 400"
    by (simp add: days_before_year_def)
  also have "\<dots> = y * 365 + ((y - 1) div 4 + (if y mod 4 = 0 then 1 else 0))
       - ((y - 1) div 100 + (if y mod 100 = 0 then 1 else 0))
       + ((y - 1) div 400 + (if y mod 400 = 0 then 1 else 0))"
    by (simp only: e4 e100 e400)
  also have "\<dots> = days_before_year y + (if is_leap y then 366 else 365)"
    using mod_400_100 [of y] mod_100_4 [of y]
    by (cases "y mod 4 = 0"; cases "y mod 100 = 0"; cases "y mod 400 = 0")
       (simp_all add: days_before_year_def is_leap_def Let_def)
  finally show ?thesis .
qed

lemma month_estimate:
  fixes n :: int and L :: bool
  assumes n: "0 \<le> n" "n < 365"
  defines "m0 \<equiv> (n + 50) div 32"
  defines "p0 \<equiv> DAYS_BEFORE_MONTH ! nat m0 + (if m0 > 2 \<and> L then 1 else 0)"
  defines "mp \<equiv> (if p0 > n
                  then (m0 - 1, p0 - (DAYS_IN_MONTH ! nat (m0 - 1) + (if m0 - 1 = 2 \<and> L then 1 else 0)))
                  else (m0, p0))"
  shows "1 \<le> fst mp \<and> fst mp \<le> 12 \<and> snd mp \<le> n
       \<and> n - snd mp < (if fst mp = 2 \<and> L then 29 else DAYS_IN_MONTH ! nat (fst mp))
       \<and> snd mp = DAYS_BEFORE_MONTH ! nat (fst mp) + (if fst mp > 2 \<and> L then 1 else 0)"
proof -
  have lo: "32 * m0 \<le> n + 50" and hi: "n + 50 < 32 * m0 + 32"
    unfolding m0_def by presburger+
  have "1 \<le> m0" "m0 \<le> 12" using lo hi n by linarith+
  then have "m0 \<in> {1,2,3,4,5,6,7,8,9,10,11,12}" by simp arith
  then show ?thesis
    using lo hi n unfolding mp_def p0_def DBM_eval DAYS_IN_MONTH_def
    apply (elim insertE emptyE)
    apply (cases L; simp)+
    done
qed

lemma dby_formula:
  fixes n400 n100 n4 n1 :: int
  assumes "0 \<le> n100" "n100 \<le> 3" "0 \<le> n4" "n4 \<le> 24" "0 \<le> n1" "n1 \<le> 3"
  shows "days_before_year (n400 * 400 + 1 + (n100 * 100 + n4 * 4 + n1))
         = 146097 * n400 + 36524 * n100 + 1461 * n4 + 365 * n1"
proof -
  define y where "y = n400 * 400 + (n100 * 100 + n4 * 4 + n1)"
  have d400: "y div 400 = n400"
    using assms by (intro int_div_pos_eq[where r="n100 * 100 + n4 * 4 + n1"]) (auto simp: y_def)
  have d100: "y div 100 = 4 * n400 + n100"
    using assms by (intro int_div_pos_eq[where r="n4 * 4 + n1"]) (auto simp: y_def)
  have d4: "y div 4 = 100 * n400 + 25 * n100 + n4"
    using assms by (intro int_div_pos_eq[where r="n1"]) (auto simp: y_def)
  have "days_before_year (y + 1) = y * 365 + y div 4 - y div 100 + y div 400"
    by (simp add: days_before_year_def)
  also have "\<dots> = 146097 * n400 + 36524 * n100 + 1461 * n4 + 365 * n1"
    unfolding d400 d100 d4 by (simp add: y_def)
  finally show ?thesis by (simp add: y_def add.commute add.left_commute)
qed

lemma mod_eq_0_bounded: "(0::int) < x \<Longrightarrow> x \<le> k \<Longrightarrow> x mod k = 0 \<longleftrightarrow> x = k"
  by (metis mod_pos_pos_trivial mod_self order_le_less less_le_not_le)

lemma is_leap_digits:
  fixes n400 n100 n4 n1 :: int
  assumes "0 \<le> n100" "n100 \<le> 3" "0 \<le> n4" "n4 \<le> 24" "0 \<le> n1" "n1 \<le> 3"
  shows "is_leap (n400 * 400 + 1 + (n100 * 100 + n4 * 4 + n1))
         \<longleftrightarrow> n1 = 3 \<and> (n4 \<noteq> 24 \<or> n100 = 3)"
proof -
  define y where "y = n400 * 400 + 1 + (n100 * 100 + n4 * 4 + n1)"
  have "y = (n1 + 1) + 4 * (n400 * 100 + n100 * 25 + n4)" by (simp add: y_def)
  then have "y mod 4 = (n1 + 1) mod 4" by (simp only: mod_mult_self2)
  then have m4: "y mod 4 = 0 \<longleftrightarrow> n1 = 3"
    using assms mod_eq_0_bounded[of "n1 + 1" 4] by simp
  have "y = (n4 * 4 + n1 + 1) + 100 * (n400 * 4 + n100)" by (simp add: y_def)
  then have "y mod 100 = (n4 * 4 + n1 + 1) mod 100" by (simp only: mod_mult_self2)
  then have m100: "y mod 100 = 0 \<longleftrightarrow> n4 * 4 + n1 + 1 = 100"
    using assms mod_eq_0_bounded[of "n4 * 4 + n1 + 1" 100] by simp
  have "y = (n100 * 100 + n4 * 4 + n1 + 1) + 400 * n400" by (simp add: y_def)
  then have "y mod 400 = (n100 * 100 + n4 * 4 + n1 + 1) mod 400" by (simp only: mod_mult_self2)
  then have m400: "y mod 400 = 0 \<longleftrightarrow> n100 * 100 + n4 * 4 + n1 + 1 = 400"
    using assms mod_eq_0_bounded[of "n100 * 100 + n4 * 4 + n1 + 1" 400] by simp
  have "is_leap y \<longleftrightarrow> n1 = 3 \<and> (n4 \<noteq> 24 \<or> n100 = 3)"
    unfolding is_leap_def m4 m100 m400 using assms by auto
  then show ?thesis by (simp add: y_def)
qed

lemma ord2ymd_correct:
  assumes "ord2ymd n = (y, m, d)"
  shows "1 \<le> m \<and> m \<le> 12 \<and> 1 \<le> d \<and> d \<le> days_in_month y m \<and> ymd2ord y m d = n"
proof -
  define n400 where "n400 = (n - 1) div 146097"
  define r1 where "r1 = (n - 1) mod 146097"
  define n100 where "n100 = r1 div 36524"
  define r2 where "r2 = r1 mod 36524"
  define n4 where "n4 = r2 div 1461"
  define r3 where "r3 = r2 mod 1461"
  define n1 where "n1 = r3 div 365"
  define r4 where "r4 = r3 mod 365"
  define Y where "Y = n400 * 400 + 1 + (n100 * 100 + n4 * 4 + n1)"
  have e1: "n - 1 = 146097 * n400 + r1" and b1: "0 \<le> r1" "r1 < 146097"
    by (simp_all add: n400_def r1_def)
  have e2: "r1 = 36524 * n100 + r2" and b2: "0 \<le> r2" "r2 < 36524"
    by (simp_all add: n100_def r2_def)
  have e3: "r2 = 1461 * n4 + r3" and b3: "0 \<le> r3" "r3 < 1461"
    by (simp_all add: n4_def r3_def)
  have e4: "r3 = 365 * n1 + r4" and b4: "0 \<le> r4" "r4 < 365"
    by (simp_all add: n1_def r4_def)
  have p100: "0 \<le> n100" unfolding n100_def using b1 by (simp add: pos_imp_zdiv_nonneg_iff)
  have p4: "0 \<le> n4" unfolding n4_def using b2 by (simp add: pos_imp_zdiv_nonneg_iff)
  have p1: "0 \<le> n1" unfolding n1_def using b3 by (simp add: pos_imp_zdiv_nonneg_iff)
  have u100: "n100 \<le> 4" using e2 b1 b2 by linarith
  have u4: "n4 \<le> 24" using e3 b2 b3 by linarith
  have u1: "n1 \<le> 4" using e4 b3 b4 by linarith
  define L where "L \<longleftrightarrow> n1 = 3 \<and> (n4 \<noteq> 24 \<or> n100 = 3)"
  define m0 where "m0 = (r4 + 50) div 32"
  define p0 where "p0 = DAYS_BEFORE_MONTH ! nat m0 + (if m0 > 2 \<and> L then 1 else 0)"
  define mp where "mp = (if p0 > r4
                  then (m0 - 1, p0 - (DAYS_IN_MONTH ! nat (m0 - 1) + (if m0 - 1 = 2 \<and> L then 1 else 0)))
                  else (m0, p0))"
  have unf: "ord2ymd n = (if n1 = 4 \<or> n100 = 4 then (Y - 1, 12, 31)
                          else (Y, fst mp, r4 - snd mp + 1))"
    unfolding ord2ymd_def DI_eval Let_def mp_def p0_def m0_def L_def Y_def
      r4_def n1_def r3_def n4_def r2_def n100_def r1_def n400_def
    by (simp only: split_def fst_conv snd_conv if_distrib[of fst] if_distrib[of snd] cong: if_cong)
  have dim12: "\<And>yy. days_in_month yy 12 = 31"
    by (simp add: days_in_month_def DAYS_IN_MONTH_def)
  have last_day: "\<And>yy. ymd2ord yy 12 31 = days_before_year (yy + 1)"
    by (simp add: ymd2ord_def days_before_month_def DBM_eval dby_Suc)
  show ?thesis
  proof (cases "n100 = 4")
    case True
    then have z: "r2 = 0" "n4 = 0" "r3 = 0" "n1 = 0" "r4 = 0"
      using e2 b1 b2 e3 b3 p4 e4 b4 p1 by linarith+
    have res: "y = Y - 1" "m = 12" "d = 31" using assms unf True by simp_all
    have "days_before_year ((n400 + 1) * 400 + 1 + (0 * 100 + 0 * 4 + 0)) = 146097 * (n400 + 1) + 36524 * 0 + 1461 * 0 + 365 * 0"
      by (rule dby_formula) simp_all
    moreover have "Y = (n400 + 1) * 400 + 1 + (0 * 100 + 0 * 4 + 0)"
      using True z by (simp add: Y_def)
    ultimately have "days_before_year Y = 146097 * n400 + 146097" by simp
    moreover have "n = 146097 * n400 + 146097" using e1 e2 True z by linarith
    ultimately show ?thesis using res last_day[of "Y - 1"] dim12 by simp
  next
    case n100: False
    then have n100': "n100 \<le> 3" using u100 by simp
    show ?thesis
    proof (cases "n1 = 4")
      case True
      then have z: "r4 = 0" using e4 b3 b4 by linarith
      have n4': "n4 \<le> 23" using e3 e4 True z b2 by linarith
      have res: "y = Y - 1" "m = 12" "d = 31" using assms unf True by simp_all
      have "days_before_year (n400 * 400 + 1 + (n100 * 100 + (n4 + 1) * 4 + 0))
            = 146097 * n400 + 36524 * n100 + 1461 * (n4 + 1) + 365 * 0"
        using p100 n100' p4 n4' by (intro dby_formula) simp_all
      moreover have "Y = n400 * 400 + 1 + (n100 * 100 + (n4 + 1) * 4 + 0)"
        using True by (simp add: Y_def)
      ultimately have "days_before_year Y = 146097 * n400 + 36524 * n100 + 1461 * n4 + 1461" by simp
      moreover have "n = 146097 * n400 + 36524 * n100 + 1461 * n4 + 1461"
        using e1 e2 e3 e4 True z by linarith
      ultimately show ?thesis using res last_day[of "Y - 1"] dim12 by simp
    next
      case n1: False
      then have n1': "n1 \<le> 3" using u1 by simp
      have res: "y = Y" "m = fst mp" "d = r4 - snd mp + 1" using assms unf n1 n100 by simp_all
      have dby: "days_before_year Y = 146097 * n400 + 36524 * n100 + 1461 * n4 + 365 * n1"
        unfolding Y_def using p100 n100' p4 u4 p1 n1' by (rule dby_formula)
      have leap: "is_leap Y \<longleftrightarrow> L"
        unfolding Y_def L_def using p100 n100' p4 u4 p1 n1' by (rule is_leap_digits)
      have me: "1 \<le> fst mp \<and> fst mp \<le> 12 \<and> snd mp \<le> r4
         \<and> r4 - snd mp < (if fst mp = 2 \<and> L then 29 else DAYS_IN_MONTH ! nat (fst mp))
         \<and> snd mp = DAYS_BEFORE_MONTH ! nat (fst mp) + (if fst mp > 2 \<and> L then 1 else 0)"
        unfolding mp_def p0_def m0_def using b4 by (rule month_estimate)
      have nn: "n = 146097 * n400 + 36524 * n100 + 1461 * n4 + 365 * n1 + r4 + 1"
        using e1 e2 e3 e4 by linarith
      have "ymd2ord y m d = n"
        unfolding res ymd2ord_def days_before_month_def leap dby nn using me by simp
      moreover have "d \<le> days_in_month y m"
        unfolding res days_in_month_def leap using me by auto
      ultimately show ?thesis using me res by simp
    qed
  qed
qed

lemma dby_mono: "y \<le> y' \<Longrightarrow> days_before_year y \<le> days_before_year y'"
proof (induction y' rule: int_ge_induct)
  case base
  show ?case by simp
next
  case (step i)
  then show ?case using dby_Suc[of i] by (simp split: if_splits)
qed

lemma month_cases: "1 \<le> m \<Longrightarrow> m \<le> 12 \<Longrightarrow> m \<in> {1,2,3,4,5,6,7,8,9,10,11,12::int}"
  by simp arith

lemma dim_pos: "1 \<le> m \<Longrightarrow> m \<le> 12 \<Longrightarrow> 28 \<le> days_in_month y m"
  by (drule (1) month_cases) (auto simp: days_in_month_def DAYS_IN_MONTH_def)

lemma dbm_step:
  "1 \<le> m \<Longrightarrow> m \<le> 11 \<Longrightarrow> days_before_month y (m + 1) = days_before_month y m + days_in_month y m"
  by (drule month_cases[of m]) (auto simp: days_before_month_def days_in_month_def DAYS_IN_MONTH_def DBM_eval)

lemma dbm_last: "days_before_month y 12 + days_in_month y 12 = (if is_leap y then 366 else 365)"
  by (simp add: days_before_month_def days_in_month_def DAYS_IN_MONTH_def DBM_eval)

lemma dbm_first: "days_before_month y 1 = 0"
  by (simp add: days_before_month_def DBM_eval)

lemma dbm_mono:
  assumes "1 \<le> m" "m < m'" "m' \<le> 12"
  shows "days_before_month y m + days_in_month y m \<le> days_before_month y m'"
proof -
  have "m + 1 \<le> m'" using assms by simp
  then show ?thesis using assms(1,3)
  proof (induction m' rule: int_ge_induct)
    case base
    then show ?case using dbm_step[of m y] by simp
  next
    case (step i)
    then show ?case using dbm_step[of i y] dim_pos[of i y] by simp
  qed
qed

lemma dbm_bounds:
  assumes "1 \<le> m" "m \<le> 12"
  shows "0 \<le> days_before_month y m"
    and "days_before_month y m + days_in_month y m \<le> (if is_leap y then 366 else 365)"
proof -
  show "0 \<le> days_before_month y m"
    using dbm_mono[of 1 m y] dbm_first[of y] dim_pos[of 1 y] assms by (cases "m = 1") auto
  show "days_before_month y m + days_in_month y m \<le> (if is_leap y then 366 else 365)"
    using dbm_mono[of m 12 y] dbm_last[of y] dim_pos[of 12 y] assms by (cases "m = 12") auto
qed

lemma ymd2ord_bounds:
  assumes "1 \<le> m" "m \<le> 12" "1 \<le> d" "d \<le> days_in_month y m"
  shows "days_before_year y < ymd2ord y m d" "ymd2ord y m d \<le> days_before_year (y + 1)"
  using dbm_bounds[OF assms(1,2), of y] assms(3,4) dby_Suc[of y]
  by (auto simp: ymd2ord_def split: if_splits)

lemma ymd2ord_inj:
  assumes v: "1 \<le> m" "m \<le> 12" "1 \<le> d" "d \<le> days_in_month y m"
    and v': "1 \<le> m'" "m' \<le> 12" "1 \<le> d'" "d' \<le> days_in_month y' m'"
    and eq: "ymd2ord y m d = ymd2ord y' m' d'"
  shows "y = y' \<and> m = m' \<and> d = d'"
proof -
  have y: "y = y'"
  proof (rule ccontr)
    assume "y \<noteq> y'"
    then consider "y + 1 \<le> y'" | "y' + 1 \<le> y" by linarith
    then show False
    proof cases
      case 1
      then show False
        using ymd2ord_bounds(2)[OF v] ymd2ord_bounds(1)[OF v'] dby_mono[of "y + 1" y'] eq by linarith
    next
      case 2
      then show False
        using ymd2ord_bounds(2)[OF v'] ymd2ord_bounds(1)[OF v] dby_mono[of "y' + 1" y] eq by linarith
    qed
  qed
  have e: "days_before_month y m + d = days_before_month y m' + d'"
    using eq y by (simp add: ymd2ord_def)
  have m: "m = m'"
  proof (rule ccontr)
    assume "m \<noteq> m'"
    then consider "m < m'" | "m' < m" by linarith
    then show False
    proof cases
      case 1
      then show False using dbm_mono[of m m' y] v v' e by linarith
    next
      case 2
      then show False using dbm_mono[of m' m y] v v'[folded y] e by linarith
    qed
  qed
  show ?thesis using y m e by simp
qed

lemma ord2ymd_ymd2ord:
  assumes "1 \<le> m" "m \<le> 12" "1 \<le> d" "d \<le> days_in_month y m"
  shows "ord2ymd (ymd2ord y m d) = (y, m, d)"
proof -
  obtain y' m' d' where r: "ord2ymd (ymd2ord y m d) = (y', m', d')"
    by (cases "ord2ymd (ymd2ord y m d)") auto
  have c: "1 \<le> m'" "m' \<le> 12" "1 \<le> d'" "d' \<le> days_in_month y' m'"
    and e: "ymd2ord y' m' d' = ymd2ord y m d"
    using ord2ymd_correct[OF r] by blast+
  have "y = y' \<and> m = m' \<and> d = d'"
    using assms c e[symmetric] by (rule ymd2ord_inj)
  then show ?thesis using r by auto
qed

lemma dby_values: "days_before_year 1 = 0" "days_before_year 10000 = 3652059"
  by (simp_all add: days_before_year_def)

lemma ord2ymd_year_range:
  assumes "ord2ymd n = (y, m, d)" "1 \<le> n" "n \<le> MAXORDINAL"
  shows "MINYEAR \<le> y \<and> y \<le> MAXYEAR"
proof -
  note c = ord2ymd_correct[OF assms(1)]
  have b: "days_before_year y < n" "n \<le> days_before_year (y + 1)"
    using ymd2ord_bounds[of m d y] c by auto
  have "1 \<le> y"
  proof (rule ccontr)
    assume "\<not> 1 \<le> y"
    then have "days_before_year (y + 1) \<le> days_before_year 1" by (intro dby_mono) simp
    then show False using b assms(2) dby_values by simp
  qed
  moreover have "y \<le> 9999"
  proof (rule ccontr)
    assume "\<not> y \<le> 9999"
    then have "days_before_year 10000 \<le> days_before_year y" by (intro dby_mono) simp
    then show False using b assms(3) dby_values by (simp add: MAXORDINAL_def)
  qed
  ultimately show ?thesis by (simp add: MINYEAR_def MAXYEAR_def)
qed

lemma fromordinal_ok:
  assumes "1 \<le> n" "n \<le> MAXORDINAL" "ord2ymd n = (y, m, d)"
  shows "check_date_fields y m d" "ymd2ord y m d = n"
  using ord2ymd_correct[OF assms(3)] ord2ymd_year_range[OF assms(3,1,2)]
  by (simp_all add: check_date_fields_def)

lemma ymd2ord_range:
  assumes "check_date_fields y m d"
  shows "1 \<le> ymd2ord y m d" "ymd2ord y m d \<le> MAXORDINAL"
proof -
  from assms have v: "1 \<le> m" "m \<le> 12" "1 \<le> d" "d \<le> days_in_month y m" and y: "1 \<le> y" "y \<le> 9999"
    by (simp_all add: check_date_fields_def MINYEAR_def MAXYEAR_def)
  have "days_before_year 1 \<le> days_before_year y" using y by (intro dby_mono)
  then show "1 \<le> ymd2ord y m d" using ymd2ord_bounds(1)[OF v] dby_values by simp
  have "days_before_year (y + 1) \<le> days_before_year 10000" using y by (intro dby_mono) simp
  then show "ymd2ord y m d \<le> MAXORDINAL"
    using ymd2ord_bounds(2)[OF v] dby_values by (simp add: MAXORDINAL_def)
qed

lemma timedelta_new_normal:
  assumes "0 \<le> s" "s < 86400" "\<bar>d\<bar> \<le> 999999999"
  shows "timedelta_new d s 0 0 0 = Inr \<lparr>days = d, seconds = s, microseconds = 0\<rparr>"
  using assms by (simp add: timedelta_new_def)

lemma time_split:
  fixes t :: int
  assumes "0 \<le> t" "t < 86400"
  shows "check_time_fields (t div 3600) (t mod 3600 div 60) (t mod 3600 mod 60) 0"
    and "t div 3600 * 3600 + t mod 3600 div 60 * 60 + t mod 3600 mod 60 = t"
proof -
  have "t div 3600 \<le> 86399 div 3600" using assms by (intro zdiv_mono1) simp_all
  then have "t div 3600 \<le> 23" by simp
  moreover have "0 \<le> t div 3600" using assms by (simp add: pos_imp_zdiv_nonneg_iff)
  moreover have "t mod 3600 div 60 \<le> 3599 div 60" by (intro zdiv_mono1) simp_all
  then have "t mod 3600 div 60 \<le> 59" by simp
  moreover have "0 \<le> t mod 3600 div 60" by (simp add: pos_imp_zdiv_nonneg_iff)
  ultimately show "check_time_fields (t div 3600) (t mod 3600 div 60) (t mod 3600 mod 60) 0"
    by (simp add: check_time_fields_def)
  have "t mod 3600 div 60 * 60 + t mod 3600 mod 60 = t mod 3600" by simp
  then show "t div 3600 * 3600 + t mod 3600 div 60 * 60 + t mod 3600 mod 60 = t"
    by (simp add: add.assoc)
qed

lemma datetime_add_whole:
  assumes dv: "check_date_fields y m d" and tv: "check_time_fields h mi s 0"
    and td: "0 \<le> seconds td" "seconds td < 86400" "microseconds td = 0"
  defines "tot \<equiv> s + mi * 60 + h * 3600 + seconds td"
  defines "dd \<equiv> ymd2ord y m d + days td + tot div 86400"
  shows "datetime_add \<lparr>year = y, month = m, day = d, hour = h, minute = mi, second = s,
                        microsecond = 0\<rparr> td =
     (if 0 < dd \<and> dd \<le> MAXORDINAL then
        (case ord2ymd dd of (y', m', d') \<Rightarrow>
           Inr \<lparr>year = y', month = m', day = d', hour = tot mod 86400 div 3600,
                minute = tot mod 86400 mod 3600 div 60, second = tot mod 86400 mod 3600 mod 60,
                microsecond = 0\<rparr>)
      else Inl OverflowError)"
proof -
  define t0 where "t0 = s + mi * 60 + h * 3600"
  have t0: "0 \<le> t0" "t0 < 86400"
    using tv unfolding t0_def check_time_fields_def by linarith+
  have t0d: "t0 div 86400 = 0" and t0m: "t0 mod 86400 = t0"
    using t0 by (simp_all add: div_pos_pos_trivial mod_pos_pos_trivial)
  have ord: "\<bar>ymd2ord y m d\<bar> \<le> 999999999"
    using ymd2ord_range[OF dv] by (simp add: MAXORDINAL_def)
  have step1: "timedelta_new (ymd2ord y m d) s 0 mi h
               = Inr \<lparr>days = ymd2ord y m d, seconds = t0, microseconds = 0\<rparr>"
    using ord unfolding timedelta_new_def Let_def
    by (simp add: t0d[unfolded t0_def] t0m[unfolded t0_def] t0_def)
  have step2: "timedelta_add \<lparr>days = ymd2ord y m d, seconds = t0, microseconds = 0\<rparr> td
               = (if \<bar>dd\<bar> > 999999999 then Inl OverflowError
                  else Inr \<lparr>days = dd, seconds = tot mod 86400, microseconds = 0\<rparr>)"
    unfolding timedelta_add_def timedelta_new_def Let_def dd_def tot_def t0_def
    by (simp add: td(3) add.assoc)
  have tm: "0 \<le> tot mod 86400" "tot mod 86400 < 86400" by simp_all
  show ?thesis
  proof (cases "0 < dd \<and> dd \<le> MAXORDINAL")
    case True
    obtain y' m' d' where r: "ord2ymd dd = (y', m', d')" by (cases "ord2ymd dd") auto
    have c: "check_date_fields y' m' d'" using fromordinal_ok(1)[OF _ _ r] True by simp
    have small: "\<not> \<bar>dd\<bar> > 999999999" using True by (simp add: MAXORDINAL_def)
    show ?thesis
      unfolding datetime_add_def toordinal_def
      using True small c time_split(1)[OF tm]
      by (simp add: step1 step2 r datetime_new_def Let_def)
  next
    case False
    then show ?thesis
      unfolding datetime_add_def toordinal_def
      by (auto simp add: step1 step2 Let_def)
  qed
qed


lemma get_delta_seconds_eq:
  assumes s: "check_date_fields yr m1 d1" and e: "check_date_fields yr m2 d2"
  shows "get_delta_seconds yr m1 d1 m2 d2 =
     (if ymd2ord yr m2 d2 < MAXORDINAL
      then Inr (86400 * real_of_int (ymd2ord yr m2 d2 - ymd2ord yr m1 d1 + 1))
      else Inl OverflowError)"
proof -
  let ?o1 = "ymd2ord yr m1 d1" and ?o2 = "ymd2ord yr m2 d2"
  have tf: "check_time_fields 0 0 0 0" "check_time_fields 23 0 0 0"
    by (simp_all add: check_time_fields_def)
  have h1: "timedelta_new 0 3600 0 0 0 = Inr \<lparr>days = 0, seconds = 3600, microseconds = 0\<rparr>"
    by (simp add: timedelta_new_def)
  have add: "datetime_add \<lparr>year = yr, month = m2, day = d2, hour = 23, minute = 0, second = 0,
                        microsecond = 0\<rparr> \<lparr>days = 0, seconds = 3600, microseconds = 0\<rparr> =
     (if 0 < ?o2 + 1 \<and> ?o2 + 1 \<le> MAXORDINAL then
        (case ord2ymd (?o2 + 1) of (y', m', d') \<Rightarrow>
           Inr \<lparr>year = y', month = m', day = d', hour = 0, minute = 0, second = 0,
                microsecond = 0\<rparr>)
      else Inl OverflowError)"
    using datetime_add_whole[OF e tf(2), of "\<lparr>days = 0, seconds = 3600, microseconds = 0\<rparr>"]
    by simp
  show ?thesis
  proof (cases "?o2 < MAXORDINAL")
    case True
    obtain y' m' d' where r: "ord2ymd (?o2 + 1) = (y', m', d')" by (cases "ord2ymd (?o2 + 1)") auto
    have rng: "1 \<le> ?o2 + 1" "?o2 + 1 \<le> MAXORDINAL" using ymd2ord_range[OF e] True by simp_all
    then have rng': "0 < ?o2 + 1 \<and> ?o2 + 1 \<le> MAXORDINAL" by simp
    have rt: "ymd2ord y' m' d' = ?o2 + 1"
      using rng r by (rule fromordinal_ok(2))
    have small: "abs (?o2 + 1 - ?o1) \<le> 999999999"
      using ymd2ord_range[OF s] ymd2ord_range[OF e] by (simp add: MAXORDINAL_def)
    show ?thesis
      using True rng' s e tf small
      by (simp add: get_delta_seconds_def datetime_new_def h1 add r datetime_sub_def toordinal_def
          rt timedelta_new_normal total_seconds_def)
  next
    case False
    then have "\<not> (0 < ?o2 + 1 \<and> ?o2 + 1 \<le> MAXORDINAL)" by simp
    with False show ?thesis
      using s e tf
      by (simp add: get_delta_seconds_def datetime_new_def h1 add)
  qed
qed

lemma map_add_upto: "map (\<lambda>d. a + d) [i..j] = [a + i..a + j]"
proof (induction i j rule: upto.induct)
  case (1 i j)
  show ?case
  proof (cases "i \<le> j")
    case True
    then show ?thesis using 1 by (simp add: upto_rec1[of i j] upto_rec1[of "a + i" "a + j"] add.assoc)
  next
    case False
    then show ?thesis by simp
  qed
qed

lemma doy_year_dates_upto:
  assumes "1 \<le> k" "k \<le> 12"
  shows "concat (map (\<lambda>m. [days_before_month y m + 1..days_before_month y m + days_in_month y m]) [1..k])
         = [1..days_before_month y k + days_in_month y k]"
  using assms
proof (induction k rule: int_ge_induct)
  case base
  show ?case by (simp add: dbm_first)
next
  case (step i)
  have i: "1 \<le> i" "i \<le> 11" using step by simp_all
  have IH: "concat (map (\<lambda>m. [days_before_month y m + 1..days_before_month y m + days_in_month y m]) [1..i])
         = [1..days_before_month y i + days_in_month y i]" using step by simp
  have sp: "[1..i + 1] = [1..i] @ [i + 1]" using upto_rec2[of 1 "i + 1"] i by simp
  have "1 \<le> days_before_month y (i + 1)"
    using dbm_step[OF i, of y] dbm_bounds(1)[of i y] dim_pos[of i y] i by simp
  moreover have "0 \<le> days_in_month y (i + 1)" using dim_pos[of "i + 1" y] i by simp
  ultimately have j: "[1..days_before_month y (i + 1) + days_in_month y (i + 1)]
      = [1..days_before_month y (i + 1)] @ [days_before_month y (i + 1) + 1..days_before_month y (i + 1) + days_in_month y (i + 1)]"
    by (intro upto_split2) simp_all
  show ?case
    unfolding sp by (simp add: IH j dbm_step[OF i, symmetric])
qed


lemma map_doy_year_dates:
  "map (doy y) (year_dates y) = [1..(if is_leap y then 366 else 365)]"
proof -
  have "map (doy y) (year_dates y)
        = concat (map (\<lambda>m. [days_before_month y m + 1..days_before_month y m + days_in_month y m]) [1..12])"
    by (simp add: year_dates_def map_concat comp_def doy_def map_add_upto)
  also have "\<dots> = [1..days_before_month y 12 + days_in_month y 12]"
    by (rule doy_year_dates_upto) simp_all
  finally show ?thesis by (simp only: dbm_last)
qed

lemma set_year_dates:
  "set (year_dates y) = {(m, d). 1 \<le> m \<and> m \<le> 12 \<and> 1 \<le> d \<and> d \<le> days_in_month y m}"
  by (auto simp: year_dates_def)

lemma date_le_doy:
  assumes "1 \<le> fst p" "fst p \<le> 12" "1 \<le> snd p" "snd p \<le> days_in_month y (fst p)"
    and "1 \<le> fst q" "fst q \<le> 12" "1 \<le> snd q" "snd q \<le> days_in_month y (fst q)"
  shows "date_le p q \<longleftrightarrow> doy y p \<le> doy y q"
proof -
  consider "fst p < fst q" | "fst p = fst q" | "fst q < fst p" by linarith
  then show ?thesis
  proof cases
    case 1
    then show ?thesis using dbm_mono[of "fst p" "fst q" y] assms by (simp add: date_le_def doy_def)
  next
    case 2
    then show ?thesis by (simp add: date_le_def doy_def)
  next
    case 3
    then show ?thesis using dbm_mono[of "fst q" "fst p" y] assms by (simp add: date_le_def doy_def)
  qed
qed

lemma filter_range_upto:
  fixes a b n :: int
  assumes "1 \<le> a" "a \<le> b" "b \<le> n"
  shows "filter (\<lambda>k. a \<le> k \<and> k \<le> b) [1..n] = [a..b]"
proof -
  have "[1..n] = [1..a - 1] @ [a..n]" using assms by (intro upto_split1) simp_all
  also have "[a..n] = [a..b] @ [b + 1..n]" using assms by (intro upto_split2) simp_all
  finally have sp: "[1..n] = [1..a - 1] @ [a..b] @ [b + 1..n]" .
  have 1: "filter (\<lambda>k. a \<le> k \<and> k \<le> b) [1..a - 1] = []" by (auto simp: filter_empty_conv)
  have 3: "filter (\<lambda>k. a \<le> k \<and> k \<le> b) [b + 1..n] = []" by (auto simp: filter_empty_conv)
  have 2: "filter (\<lambda>k. a \<le> k \<and> k \<le> b) [a..b] = [a..b]" by (auto simp: filter_id_conv)
  show ?thesis unfolding sp by (simp only: filter_append 1 2 3 append_Nil append_Nil2)
qed

lemma days_inclusive_ord:
  assumes a: "1 \<le> m1" "m1 \<le> 12" "1 \<le> d1" "d1 \<le> days_in_month y m1"
    and b: "1 \<le> m2" "m2 \<le> 12" "1 \<le> d2" "d2 \<le> days_in_month y m2"
    and le: "date_le (m1, d1) (m2, d2)"
  shows "int (days_inclusive y (m1, d1) (m2, d2)) = ymd2ord y m2 d2 - ymd2ord y m1 d1 + 1"
proof -
  let ?A = "doy y (m1, d1)" and ?B = "doy y (m2, d2)"
  let ?N = "if is_leap y then 366 else 365 :: int"
  have AB: "?A \<le> ?B" using date_le_doy[of "(m1, d1)" y "(m2, d2)"] a b le by simp
  have A1: "1 \<le> ?A" using dbm_bounds(1)[OF a(1,2), of y] a by (simp add: doy_def)
  have BN: "?B \<le> ?N" using dbm_bounds(2)[OF b(1,2), of y] b by (simp add: doy_def)
  have "filter (\<lambda>p. date_le (m1, d1) p \<and> date_le p (m2, d2)) (year_dates y)
        = filter ((\<lambda>k. ?A \<le> k \<and> k \<le> ?B) \<circ> doy y) (year_dates y)"
  proof (rule filter_cong[OF refl])
    fix p assume "p \<in> set (year_dates y)"
    then have p: "1 \<le> fst p" "fst p \<le> 12" "1 \<le> snd p" "snd p \<le> days_in_month y (fst p)"
      by (auto simp: set_year_dates)
    show "(date_le (m1, d1) p \<and> date_le p (m2, d2)) = ((\<lambda>k. ?A \<le> k \<and> k \<le> ?B) \<circ> doy y) p"
      using date_le_doy[of "(m1, d1)" y p] date_le_doy[of p y "(m2, d2)"] a b p by simp
  qed
  then have "days_inclusive y (m1, d1) (m2, d2)
             = length (map (doy y) (filter ((\<lambda>k. ?A \<le> k \<and> k \<le> ?B) \<circ> doy y) (year_dates y)))"
    by (simp add: days_inclusive_def)
  also have "\<dots> = length (filter (\<lambda>k. ?A \<le> k \<and> k \<le> ?B) [1..?N])"
    by (simp only: filter_map[symmetric] map_doy_year_dates)
  also have "\<dots> = length [?A..?B]"
    using A1 AB BN by (simp only: filter_range_upto)
  finally have "int (days_inclusive y (m1, d1) (m2, d2)) = ?B - ?A + 1" using AB by simp
  then show ?thesis by (simp add: doy_def ymd2ord_def)
qed

lemma ymd2ord_last_day: "ymd2ord y 12 31 = days_before_year (y + 1)"
  by (simp add: ymd2ord_def days_before_month_def DBM_eval dby_Suc)

lemma ymd2ord_max:
  assumes "check_date_fields y m d" "(y, m, d) \<noteq> (9999, 12, 31)"
  shows "ymd2ord y m d < MAXORDINAL"
proof (rule ccontr)
  assume "\<not> ymd2ord y m d < MAXORDINAL"
  then have "ymd2ord y m d = ymd2ord 9999 12 31"
    using ymd2ord_range(2)[OF assms(1)] ymd2ord_last_day[of 9999] dby_values
    by (simp add: MAXORDINAL_def)
  moreover have "1 \<le> m" "m \<le> 12" "1 \<le> d" "d \<le> days_in_month y m"
    using assms(1) by (simp_all add: check_date_fields_def)
  moreover have "(1::int) \<le> 12" "(12::int) \<le> 12" "(1::int) \<le> 31" "31 \<le> days_in_month 9999 12"
    by (simp_all add: days_in_month_def DAYS_IN_MONTH_def)
  ultimately have "y = 9999 \<and> m = 12 \<and> d = 31" by (intro ymd2ord_inj)
  then show False using assms(2) by simp
qed

section \<open>The seconds of an interval of days\<close>

text \<open>
  C1 (amended). For every valid date tuple \<open>(yr, m1, d1, m2, d2)\<close> with
  \<open>(m2, d2)\<close> not before \<open>(m1, d1)\<close>, except an interval that ends on 31 December 9999,
  \<^verbatim>\<open>get_delta_seconds\<close> returns exactly 86400 times the number of calendar days from
  \<open>(m1, d1)\<close> to \<open>(m2, d2)\<close> inclusive. That number lies between 1 and 366, so the
  result is a whole number a double holds exactly; a same-day call returns 86400; and the
  end day at 23:00 plus one hour is the same instant as the end day at 00:00 plus one day.
\<close>

theorem get_delta_seconds_days:
  assumes "check_date_fields yr m1 d1" and "check_date_fields yr m2 d2"
    and "date_le (m1, d1) (m2, d2)"
    and "(yr, m2, d2) \<noteq> (9999, 12, 31)"
  shows "get_delta_seconds yr m1 d1 m2 d2
           = Inr (86400 * real (days_inclusive yr (m1, d1) (m2, d2)))
       \<and> 1 \<le> days_inclusive yr (m1, d1) (m2, d2)
       \<and> days_inclusive yr (m1, d1) (m2, d2) \<le> 366
       \<and> (m1 = m2 \<and> d1 = d2 \<longrightarrow> get_delta_seconds yr m1 d1 m2 d2 = Inr 86400)
       \<and> datetime_add \<lparr>year = yr, month = m2, day = d2, hour = 23, minute = 0, second = 0,
                          microsecond = 0\<rparr> \<lparr>days = 0, seconds = 3600, microseconds = 0\<rparr>
         = datetime_add \<lparr>year = yr, month = m2, day = d2, hour = 0, minute = 0, second = 0,
                          microsecond = 0\<rparr> \<lparr>days = 1, seconds = 0, microseconds = 0\<rparr>"
proof -
  let ?o1 = "ymd2ord yr m1 d1" and ?o2 = "ymd2ord yr m2 d2"
  let ?n = "days_inclusive yr (m1, d1) (m2, d2)"
  have a: "1 \<le> m1" "m1 \<le> 12" "1 \<le> d1" "d1 \<le> days_in_month yr m1"
    and b: "1 \<le> m2" "m2 \<le> 12" "1 \<le> d2" "d2 \<le> days_in_month yr m2"
    using assms(1,2) by (simp_all add: check_date_fields_def)
  have n: "int ?n = ?o2 - ?o1 + 1" using a b assms(3) by (rule days_inclusive_ord)
  have lt: "?o2 < MAXORDINAL" using assms(2,4) by (rule ymd2ord_max)
  have "real_of_int (?o2 - ?o1 + 1) = real ?n"
    by (simp only: n[symmetric] of_int_of_nat_eq)
  then have res: "get_delta_seconds yr m1 d1 m2 d2 = Inr (86400 * real ?n)"
    using lt by (simp only: get_delta_seconds_eq[OF assms(1,2)] if_True)
  have le: "?o1 \<le> ?o2"
    using date_le_doy[of "(m1, d1)" yr "(m2, d2)"] a b assms(3) by (simp add: doy_def ymd2ord_def)
  have lo: "1 \<le> ?n" using n le by linarith
  have "?o2 \<le> days_before_year (yr + 1)" using b by (rule ymd2ord_bounds(2))
  moreover have "days_before_year yr < ?o1" using a by (rule ymd2ord_bounds(1))
  moreover have "days_before_year (yr + 1) \<le> days_before_year yr + 366"
    by (simp add: dby_Suc)
  ultimately have "int ?n \<le> 366" using n by linarith
  then have hi: "?n \<le> 366" by linarith
  have same: "m1 = m2 \<and> d1 = d2 \<longrightarrow> get_delta_seconds yr m1 d1 m2 d2 = Inr 86400"
  proof
    assume "m1 = m2 \<and> d1 = d2"
    then have "int ?n = 1" using n by simp
    then have "?n = 1" by simp
    then show "get_delta_seconds yr m1 d1 m2 d2 = Inr 86400" using res by simp
  qed
  have tf: "check_time_fields 23 0 0 0" "check_time_fields 0 0 0 0"
    by (simp_all add: check_time_fields_def)
  have e: "datetime_add \<lparr>year = yr, month = m2, day = d2, hour = 23, minute = 0, second = 0,
                          microsecond = 0\<rparr> \<lparr>days = 0, seconds = 3600, microseconds = 0\<rparr>
         = datetime_add \<lparr>year = yr, month = m2, day = d2, hour = 0, minute = 0, second = 0,
                          microsecond = 0\<rparr> \<lparr>days = 1, seconds = 0, microseconds = 0\<rparr>"
    using datetime_add_whole[OF assms(2) tf(1), of "\<lparr>days = 0, seconds = 3600, microseconds = 0\<rparr>"]
      datetime_add_whole[OF assms(2) tf(2), of "\<lparr>days = 1, seconds = 0, microseconds = 0\<rparr>"]
    by simp
  show ?thesis using res lo hi same e by blast
qed

theorem get_delta_seconds_days_witness:
  "get_delta_seconds 2021 1 1 1 2 = Inr 172800 \<and> get_delta_seconds 2021 1 1 1 1 = Inr 86400"
proof -
  have v: "check_date_fields 2021 1 1" "check_date_fields 2021 1 2"
    by (simp_all add: check_date_fields_def MINYEAR_def MAXYEAR_def days_in_month_def
        DAYS_IN_MONTH_def)
  have le: "date_le (1, 1) (1, 2)" "date_le (1, 1) (1, 1)" by (simp_all add: date_le_def)
  have ne: "(2021, 1, 2) \<noteq> (9999, 12, 31 :: int)" "(2021, 1, 1) \<noteq> (9999, 12, 31 :: int)"
    by simp_all
  have n: "days_inclusive 2021 (1, 1) (1, 2) = 2" by code_simp
  have "get_delta_seconds 2021 1 1 1 2 = Inr (86400 * real (days_inclusive 2021 (1, 1) (1, 2)))"
    using get_delta_seconds_days[OF v(1) v(2) le(1) ne(1)] by (rule conjunct1)
  moreover have "get_delta_seconds 2021 1 1 1 1 = Inr 86400"
    using get_delta_seconds_days[OF v(1) v(1) le(2) ne(2)] by blast
  ultimately show ?thesis by (simp add: n)
qed

text \<open>
  The claim as written covers every valid date tuple, but an interval that ends on the last
  day \<^verbatim>\<open>datetime\<close> can represent has no 24:00: the addition of the hour raises.
\<close>

theorem get_delta_seconds_last_day_overflow:
  "check_date_fields 9999 12 31 \<and> date_le (12, 31) (12, 31)
   \<and> get_delta_seconds 9999 12 31 12 31 = Inl OverflowError"
proof -
  have v: "check_date_fields 9999 12 31"
    by (simp add: check_date_fields_def MINYEAR_def MAXYEAR_def days_in_month_def DAYS_IN_MONTH_def)
  have "ymd2ord 9999 12 31 = MAXORDINAL"
    by (simp add: ymd2ord_last_day dby_values MAXORDINAL_def)
  then show ?thesis using v by (simp add: get_delta_seconds_eq[OF v v] date_le_def)
qed

section \<open>The current day, month and hour\<close>

lemma timedelta_new_seconds:
  "timedelta_new 0 sec 0 0 0 =
     (if \<bar>sec div 86400\<bar> > 999999999 then Inl OverflowError
      else Inr \<lparr>days = sec div 86400, seconds = sec mod 86400, microseconds = 0\<rparr>)"
  by (simp add: timedelta_new_def)

lemma get_current_time_info_eq:
  fixes sec_elapsed :: int
  assumes rp: "RunPeriod epm = rp # rest" "rp ''begin_month'' = Some bm"
      "rp ''begin_day_of_month'' = Some bd"
    and v: "check_date_fields sim_year bm bd"
  defines "dd \<equiv> ymd2ord sim_year bm bd + sec_elapsed div 86400"
  shows "get_current_time_info epm sec_elapsed sim_year =
     (if 0 < dd \<and> dd \<le> MAXORDINAL
      then (case ord2ymd dd of (y, m, d) \<Rightarrow> Inr (d, m, sec_elapsed mod 86400 div 3600))
      else Inl OverflowError)"
proof -
  have tf: "check_time_fields 0 0 0 0" by (simp add: check_time_fields_def)
  have pre: "get_current_time_info epm sec_elapsed sim_year =
     (case timedelta_new 0 sec_elapsed 0 0 0 of
        Inl e \<Rightarrow> Inl e
      | Inr td \<Rightarrow>
     (case datetime_add \<lparr>year = sim_year, month = bm, day = bd, hour = 0, minute = 0,
                          second = 0, microsecond = 0\<rparr> td of
        Inl e \<Rightarrow> Inl e
      | Inr current_date \<Rightarrow>
          Inr (day current_date, month current_date, hour current_date)))"
    using rp v tf
    by (simp add: get_current_time_info_def list_getitem0_def dict_getitem_def datetime_new_def)
  show ?thesis
  proof (cases "\<bar>sec_elapsed div 86400\<bar> > 999999999")
    case True
    then have "\<not> (0 < dd \<and> dd \<le> MAXORDINAL)"
      using ymd2ord_range[OF v] unfolding dd_def MAXORDINAL_def by linarith
    then show ?thesis using True by (auto simp add: pre timedelta_new_seconds)
  next
    case False
    let ?td = "\<lparr>days = sec_elapsed div 86400, seconds = sec_elapsed mod 86400, microseconds = 0\<rparr>"
    have m: "0 \<le> sec_elapsed mod 86400" "sec_elapsed mod 86400 < 86400" by simp_all
    have z: "sec_elapsed mod 86400 div 86400 = 0" using m by (simp add: div_pos_pos_trivial)
    have add: "datetime_add \<lparr>year = sim_year, month = bm, day = bd, hour = 0, minute = 0,
                          second = 0, microsecond = 0\<rparr> ?td =
     (if 0 < dd \<and> dd \<le> MAXORDINAL then
        (case ord2ymd dd of (y', m', d') \<Rightarrow>
           Inr \<lparr>year = y', month = m', day = d', hour = sec_elapsed mod 86400 div 3600,
                minute = sec_elapsed mod 86400 mod 3600 div 60,
                second = sec_elapsed mod 86400 mod 3600 mod 60,
                microsecond = 0\<rparr>)
      else Inl OverflowError)"
      using datetime_add_whole[OF v tf, of ?td] m by (simp add: z dd_def)
    show ?thesis
      using False by (auto simp add: pre timedelta_new_seconds add split: prod.splits)
  qed
qed


lemma instant_unique:
  assumes d: "check_date_fields y m d" and t: "check_time_fields h mi s 0"
    and d': "check_date_fields y' m' d'" and t': "check_time_fields h' mi' s' 0"
    and eq: "ymd2ord y m d * 86400 + (h * 3600 + mi * 60 + s)
             = ymd2ord y' m' d' * 86400 + (h' * 3600 + mi' * 60 + s')"
  shows "y = y' \<and> m = m' \<and> d = d' \<and> h = h' \<and> mi = mi' \<and> s = s'"
proof -
  have b: "0 \<le> h" "h \<le> 23" "0 \<le> mi" "mi \<le> 59" "0 \<le> s" "s \<le> 59"
    using t by (simp_all add: check_time_fields_def)
  have b': "0 \<le> h'" "h' \<le> 23" "0 \<le> mi'" "mi' \<le> 59" "0 \<le> s'" "s' \<le> 59"
    using t' by (simp_all add: check_time_fields_def)
  have o: "ymd2ord y m d = ymd2ord y' m' d'" using eq b b' by linarith
  then have tod: "h * 3600 + mi * 60 + s = h' * 3600 + mi' * 60 + s'" using eq by simp
  have h: "h = h'" using tod b b' by linarith
  then have mi: "mi = mi'" using tod b b' by linarith
  have s: "s = s'" using tod h mi by simp
  have "y = y' \<and> m = m' \<and> d = d'"
    using d d' o unfolding check_date_fields_def by (intro ymd2ord_inj) simp_all
  then show ?thesis using h mi s by simp
qed

text \<open>
  C2 (amended). For every run-period source whose first entry has \<open>begin_month\<close> and
  \<open>begin_day_of_month\<close> that form a valid date of the simulation year (a year from 1 to
  9999), and every elapsed offset \<open>\<ge> 0\<close> that does not carry the instant past
  31 December 9999, \<^verbatim>\<open>get_current_time_info\<close> returns the day of month, the month and the
  hour of the instant that lies \<open>sec_elapsed\<close> seconds after 00:00:00 of the begin date:
  the result belongs to a valid date and time of day whose distance from the start, in days
  times 86400 plus the time of day, is the offset. Minutes and seconds are dropped, so the
  hour is truncated. Begin 1 January, year 1991, offset 3661 gives \<open>(1, 1, 1)\<close>.
\<close>

theorem get_current_time_info_instant:
  fixes sec_elapsed :: int
  assumes "RunPeriod epm = rp # rest" and "rp ''begin_month'' = Some bm"
    and "rp ''begin_day_of_month'' = Some bd"
    and "check_date_fields sim_year bm bd"
    and "0 \<le> sec_elapsed"
    and "ymd2ord sim_year bm bd + sec_elapsed div 86400 \<le> MAXORDINAL"
  shows "\<exists>y m d h mi s.
           get_current_time_info epm sec_elapsed sim_year = Inr (d, m, h)
         \<and> check_date_fields y m d \<and> check_time_fields h mi s 0
         \<and> (ymd2ord y m d - ymd2ord sim_year bm bd) * 86400 + (h * 3600 + mi * 60 + s)
             = sec_elapsed"
proof -
  let ?dd = "ymd2ord sim_year bm bd + sec_elapsed div 86400"
  let ?t = "sec_elapsed mod 86400"
  have "0 \<le> sec_elapsed div 86400" using assms(5) by (simp add: pos_imp_zdiv_nonneg_iff)
  then have lo: "1 \<le> ?dd" using ymd2ord_range(1)[OF assms(4)] by linarith
  obtain y m d where r: "ord2ymd ?dd = (y, m, d)" by (cases "ord2ymd ?dd") auto
  have ok: "check_date_fields y m d" "ymd2ord y m d = ?dd"
    using fromordinal_ok[OF lo assms(6) r] by simp_all
  have tm: "0 \<le> ?t" "?t < 86400" by simp_all
  have res: "get_current_time_info epm sec_elapsed sim_year = Inr (d, m, ?t div 3600)"
    using lo assms(6) by (simp add: get_current_time_info_eq[OF assms(1-4)] r)
  have "(ymd2ord y m d - ymd2ord sim_year bm bd) * 86400
          + (?t div 3600 * 3600 + ?t mod 3600 div 60 * 60 + ?t mod 3600 mod 60)
        = sec_elapsed div 86400 * 86400 + ?t"
    by (simp only: ok(2) time_split(2)[OF tm] add_diff_cancel_left')
  also have "\<dots> = sec_elapsed" by simp
  finally show ?thesis using res ok(1) time_split(1)[OF tm] by blast
qed

theorem get_current_time_info_instant_witness:
  "get_current_time_info \<lparr>RunPeriod = [[''begin_month'' \<mapsto> 1, ''begin_day_of_month'' \<mapsto> 1]]\<rparr>
     3661 1991 = Inr (1, 1, 1)"
proof -
  let ?epm = "\<lparr>RunPeriod = [[''begin_month'' \<mapsto> 1, ''begin_day_of_month'' \<mapsto> 1::int]]\<rparr>"
  have v: "check_date_fields 1991 1 1"
    by (simp add: check_date_fields_def MINYEAR_def MAXYEAR_def days_in_month_def DAYS_IN_MONTH_def)
  have hi: "ymd2ord 1991 1 1 + 3661 div 86400 \<le> MAXORDINAL" using ymd2ord_range(2)[OF v] by simp
  have rp: "RunPeriod ?epm = [''begin_month'' \<mapsto> 1, ''begin_day_of_month'' \<mapsto> 1] # []"
    "[''begin_month'' \<mapsto> 1, ''begin_day_of_month'' \<mapsto> 1::int] ''begin_month'' = Some 1"
    "[''begin_month'' \<mapsto> 1, ''begin_day_of_month'' \<mapsto> 1::int] ''begin_day_of_month'' = Some 1"
    by simp_all
  obtain y m d h mi s where
    res: "get_current_time_info ?epm 3661 1991 = Inr (d, m, h)"
    and dv: "check_date_fields y m d" and tv: "check_time_fields h mi s 0"
    and eq: "(ymd2ord y m d - ymd2ord 1991 1 1) * 86400 + (h * 3600 + mi * 60 + s) = 3661"
    using get_current_time_info_instant[OF rp v _ hi] by auto
  have tv': "check_time_fields 1 1 1 0" by (simp add: check_time_fields_def)
  have "ymd2ord y m d * 86400 + (h * 3600 + mi * 60 + s)
        = ymd2ord 1991 1 1 * 86400 + (1 * 3600 + 1 * 60 + 1)"
    using eq by (simp add: algebra_simps)
  from instant_unique[OF dv tv v tv' this] show ?thesis using res by simp
qed

text \<open>
  The claim as written quantifies over every simulation year and every offset; a begin
  date that is no date of the year is refused by the \<^verbatim>\<open>datetime\<close> constructor. A run
  period that begins on 29 February is such a date in the default year 1991.
\<close>

theorem get_current_time_info_invalid_date:
  "get_current_time_info \<lparr>RunPeriod = [[''begin_month'' \<mapsto> 2, ''begin_day_of_month'' \<mapsto> 29]]\<rparr>
     0 1991 = Inl ValueError"
  by (simp add: get_current_time_info_def list_getitem0_def dict_getitem_def datetime_new_def
      check_date_fields_def MINYEAR_def MAXYEAR_def days_in_month_def DAYS_IN_MONTH_def is_leap_def)

text \<open>
  C8. With no run-period entry, or with a first entry that lacks \<open>begin_month\<close> or
  \<open>begin_day_of_month\<close>, \<^verbatim>\<open>get_current_time_info\<close> raises instead of returning a
  value: the lookup error of the missing entry (\<^verbatim>\<open>IndexError\<close>) or of the first missing
  field (\<^verbatim>\<open>KeyError\<close>), whatever the offset and the year are.
\<close>

theorem get_current_time_info_invalid_run_period:
  assumes "RunPeriod epm = []
           \<or> (\<exists>rp rest. RunPeriod epm = rp # rest
                \<and> (rp ''begin_month'' = None \<or> rp ''begin_day_of_month'' = None))"
  shows "get_current_time_info epm sec_elapsed sim_year =
           (if RunPeriod epm = [] then Inl IndexError
            else if hd (RunPeriod epm) ''begin_month'' = None then Inl (KeyError ''begin_month'')
            else Inl (KeyError ''begin_day_of_month''))"
  using assms
  by (auto simp add: get_current_time_info_def list_getitem0_def dict_getitem_def
      split: option.splits)

theorem get_current_time_info_invalid_run_period_witness:
  "get_current_time_info \<lparr>RunPeriod = []\<rparr> 3661 1991 = Inl IndexError
   \<and> get_current_time_info \<lparr>RunPeriod = [[''begin_month'' \<mapsto> 1]]\<rparr> 3661 1991
       = Inl (KeyError ''begin_day_of_month'')"
  using get_current_time_info_invalid_run_period[of "\<lparr>RunPeriod = []\<rparr>" 3661 1991]
    get_current_time_info_invalid_run_period[of "\<lparr>RunPeriod = [[''begin_month'' \<mapsto> 1]]\<rparr>" 3661 1991]
  by simp

lemma offset_div_mod:
  fixes a t :: int
  assumes "0 \<le> t" "t < 86400"
  shows "(a * 86400 + t) div 86400 = a" "(a * 86400 + t) mod 86400 = t"
proof -
  have e: "a * 86400 + t = 86400 * a + t" by simp
  show "(a * 86400 + t) div 86400 = a" using assms e by (intro int_div_pos_eq[where r=t]) simp_all
  show "(a * 86400 + t) mod 86400 = t" using assms e by (intro int_mod_pos_eq[where q=a]) simp_all
qed

lemma get_current_time_info_at:
  fixes t :: int
  assumes rp: "RunPeriod epm = rp # rest" "rp ''begin_month'' = Some bm"
      "rp ''begin_day_of_month'' = Some bd"
    and v: "check_date_fields sim_year bm bd"
    and d: "check_date_fields y m d" and t: "0 \<le> t" "t < 86400"
  shows "get_current_time_info epm ((ymd2ord y m d - ymd2ord sim_year bm bd) * 86400 + t) sim_year
         = Inr (d, m, t div 3600)"
proof -
  have dv: "1 \<le> m" "m \<le> 12" "1 \<le> d" "d \<le> days_in_month y m"
    using d by (simp_all add: check_date_fields_def)
  have r: "ord2ymd (ymd2ord y m d) = (y, m, d)" using dv by (rule ord2ymd_ymd2ord)
  have rng: "0 < ymd2ord y m d \<and> ymd2ord y m d \<le> MAXORDINAL" using ymd2ord_range[OF d] by simp
  have c: "ymd2ord sim_year bm bd + (ymd2ord y m d - ymd2ord sim_year bm bd) = ymd2ord y m d"
    by simp
  show ?thesis
    unfolding get_current_time_info_eq[OF rp v] offset_div_mod[OF t] c r
    using rng by simp
qed

text \<open>
  C10 (amended). \<^verbatim>\<open>get_current_time_info\<close> accepts every offset, negative ones
  and ones past the end of the simulation year included, for which the instant stays within
  the years 1 to 9999; for any other offset it raises \<^verbatim>\<open>OverflowError\<close>. The result
  omits the year: the offsets that lead to the same month, day and time of day in two years
  \<open>y1\<close> and \<open>y2\<close>, which differ by the length of the years between the two dates,
  give the same triple.
\<close>

theorem get_current_time_info_any_offset:
  fixes sec_elapsed t :: int
  assumes "RunPeriod epm = rp # rest" and "rp ''begin_month'' = Some bm"
    and "rp ''begin_day_of_month'' = Some bd"
    and "check_date_fields sim_year bm bd"
  shows "(if 1 \<le> ymd2ord sim_year bm bd + sec_elapsed div 86400
             \<and> ymd2ord sim_year bm bd + sec_elapsed div 86400 \<le> MAXORDINAL
          then \<exists>r. get_current_time_info epm sec_elapsed sim_year = Inr r
          else get_current_time_info epm sec_elapsed sim_year = Inl OverflowError)
       \<and> (check_date_fields y1 m d \<and> check_date_fields y2 m d \<and> 0 \<le> t \<and> t < 86400 \<longrightarrow>
            get_current_time_info epm
              ((ymd2ord y1 m d - ymd2ord sim_year bm bd) * 86400 + t) sim_year
              = Inr (d, m, t div 3600)
          \<and> get_current_time_info epm
              ((ymd2ord y1 m d - ymd2ord sim_year bm bd) * 86400 + t
                + 86400 * (ymd2ord y2 m d - ymd2ord y1 m d)) sim_year
              = Inr (d, m, t div 3600))"
proof -
  let ?dd = "ymd2ord sim_year bm bd + sec_elapsed div 86400"
  have 1: "if 1 \<le> ?dd \<and> ?dd \<le> MAXORDINAL
          then \<exists>r. get_current_time_info epm sec_elapsed sim_year = Inr r
          else get_current_time_info epm sec_elapsed sim_year = Inl OverflowError"
  proof (cases "1 \<le> ?dd \<and> ?dd \<le> MAXORDINAL")
    case True
    then have "0 < ?dd \<and> ?dd \<le> MAXORDINAL" by simp
    then show ?thesis using True
      by (simp add: get_current_time_info_eq[OF assms] split: prod.splits)
  next
    case False
    then have "\<not> (0 < ?dd \<and> ?dd \<le> MAXORDINAL)" by linarith
    then show ?thesis using False by (auto simp add: get_current_time_info_eq[OF assms])
  qed
  have 2: "check_date_fields y1 m d \<and> check_date_fields y2 m d \<and> 0 \<le> t \<and> t < 86400 \<longrightarrow>
            get_current_time_info epm
              ((ymd2ord y1 m d - ymd2ord sim_year bm bd) * 86400 + t) sim_year
              = Inr (d, m, t div 3600)
          \<and> get_current_time_info epm
              ((ymd2ord y1 m d - ymd2ord sim_year bm bd) * 86400 + t
                + 86400 * (ymd2ord y2 m d - ymd2ord y1 m d)) sim_year
              = Inr (d, m, t div 3600)"
  proof (intro impI, elim conjE)
    assume h: "check_date_fields y1 m d" "check_date_fields y2 m d" "0 \<le> t" "t < 86400"
    have e: "(ymd2ord y1 m d - ymd2ord sim_year bm bd) * 86400 + t
                + 86400 * (ymd2ord y2 m d - ymd2ord y1 m d)
             = (ymd2ord y2 m d - ymd2ord sim_year bm bd) * 86400 + t"
      by (simp add: algebra_simps)
    show "get_current_time_info epm
              ((ymd2ord y1 m d - ymd2ord sim_year bm bd) * 86400 + t) sim_year
              = Inr (d, m, t div 3600)
          \<and> get_current_time_info epm
              ((ymd2ord y1 m d - ymd2ord sim_year bm bd) * 86400 + t
                + 86400 * (ymd2ord y2 m d - ymd2ord y1 m d)) sim_year
              = Inr (d, m, t div 3600)"
      unfolding e
      using get_current_time_info_at[OF assms h(1) h(3,4)]
        get_current_time_info_at[OF assms h(2) h(3,4)] by simp
  qed
  show ?thesis using 1 2 by (rule conjI)
qed

lemma ymd2ord_1991: "ymd2ord 1991 1 1 = 726833" "ymd2ord 1992 1 1 = 727198"
  by (simp_all add: ymd2ord_def days_before_year_def days_before_month_def DBM_eval)

theorem get_current_time_info_any_offset_witness:
  "(\<exists>r. get_current_time_info
          \<lparr>RunPeriod = [[''begin_month'' \<mapsto> 1, ''begin_day_of_month'' \<mapsto> 1]]\<rparr> (- 86400) 1991 = Inr r)
   \<and> get_current_time_info
          \<lparr>RunPeriod = [[''begin_month'' \<mapsto> 1, ''begin_day_of_month'' \<mapsto> 1]]\<rparr> 0 1991 = Inr (1, 1, 0)
   \<and> get_current_time_info
          \<lparr>RunPeriod = [[''begin_month'' \<mapsto> 1, ''begin_day_of_month'' \<mapsto> 1]]\<rparr> 31536000 1991 = Inr (1, 1, 0)"
proof -
  let ?epm = "\<lparr>RunPeriod = [[''begin_month'' \<mapsto> 1, ''begin_day_of_month'' \<mapsto> 1::int]]\<rparr>"
  have v: "check_date_fields 1991 1 1" "check_date_fields 1992 1 1"
    by (simp_all add: check_date_fields_def MINYEAR_def MAXYEAR_def days_in_month_def DAYS_IN_MONTH_def)
  have rp: "RunPeriod ?epm = [''begin_month'' \<mapsto> 1, ''begin_day_of_month'' \<mapsto> 1] # []"
    "[''begin_month'' \<mapsto> 1, ''begin_day_of_month'' \<mapsto> 1::int] ''begin_month'' = Some 1"
    "[''begin_month'' \<mapsto> 1, ''begin_day_of_month'' \<mapsto> 1::int] ''begin_day_of_month'' = Some 1"
    by simp_all
  show ?thesis
    using get_current_time_info_any_offset[OF rp v(1), of "- 86400" 1991 1 1 1992 0] v
    by (simp add: ymd2ord_1991 MAXORDINAL_def)
qed

text \<open>
  The claim as written accepts any offset; one of 3652059 days leaves the range of
  \<^verbatim>\<open>datetime\<close> from every start.
\<close>

theorem get_current_time_info_offset_overflow:
  "get_current_time_info
     \<lparr>RunPeriod = [[''begin_month'' \<mapsto> 1, ''begin_day_of_month'' \<mapsto> 1]]\<rparr> 315537897600 1991
   = Inl OverflowError"
proof -
  let ?epm = "\<lparr>RunPeriod = [[''begin_month'' \<mapsto> 1, ''begin_day_of_month'' \<mapsto> 1::int]]\<rparr>"
  have v: "check_date_fields 1991 1 1"
    by (simp add: check_date_fields_def MINYEAR_def MAXYEAR_def days_in_month_def DAYS_IN_MONTH_def)
  have rp: "RunPeriod ?epm = [''begin_month'' \<mapsto> 1, ''begin_day_of_month'' \<mapsto> 1] # []"
    "[''begin_month'' \<mapsto> 1, ''begin_day_of_month'' \<mapsto> 1::int] ''begin_month'' = Some 1"
    "[''begin_month'' \<mapsto> 1, ''begin_day_of_month'' \<mapsto> 1::int] ''begin_day_of_month'' = Some 1"
    by simp_all
  show ?thesis
    by (simp add: get_current_time_info_eq[OF rp v] ymd2ord_1991 MAXORDINAL_def)
qed

section \<open>The variables of a variable file\<close>

lemma parse_variables_loop_ok:
  "list_all variable_ok vs \<Longrightarrow>
   parse_variables_loop vs acc = Inr (acc @ map child_type (filter matched vs))"
proof (induction vs arbitrary: acc)
  case Nil
  show ?case by simp
next
  case (Cons v vs)
  then have ok: "variable_ok v" and rest: "list_all variable_ok vs" by simp_all
  show ?case
  proof (cases "matched v")
    case True
    then show ?thesis
      using ok Cons.IH[OF rest]
      by (auto simp add: variable_ok_def matched_def child_type_def dict_getitem_def
          list_getitem0_def split: list.splits option.splits)
  next
    case False
    then show ?thesis
      using ok Cons.IH[OF rest]
      by (auto simp add: variable_ok_def matched_def dict_getitem_def split: option.splits)
  qed
qed

lemma parse_variables_loop_fail:
  "\<not> list_all variable_ok vs \<Longrightarrow> \<exists>e. parse_variables_loop vs acc = Inl e"
proof (induction vs arbitrary: acc)
  case Nil
  then show ?case by simp
next
  case (Cons v vs)
  show ?case
  proof (cases "variable_ok v")
    case True
    then have "\<not> list_all variable_ok vs" using Cons.prems by simp
    from Cons.IH[OF this] True show ?thesis
      by (auto simp add: variable_ok_def matched_def dict_getitem_def list_getitem0_def
          split: list.splits option.splits)
  next
    case False
    then show ?thesis
      by (auto simp add: variable_ok_def matched_def dict_getitem_def list_getitem0_def
          split: list.splits option.splits)
  qed
qed

lemma parse_variables_loop_skip:
  assumes "map_of (attrib v) ''source'' = Some s" "s \<noteq> ''EnergyPlus''"
  shows "parse_variables_loop (v # rest) acc = parse_variables_loop rest acc"
  using assms by (simp add: dict_getitem_def)

text \<open>
  C3. For a variable file that is as the schema expects, that is, whose top-level
  \<open>variable\<close> elements each have a \<open>source\<close> attribute and, when that is
  \<open>EnergyPlus\<close>, a first child with a \<open>type\<close> attribute, \<^verbatim>\<open>parse_variables\<close>
  returns the \<open>type\<close> values of that child for exactly the children of the root that are
  tagged \<open>variable\<close> and have the source \<open>EnergyPlus\<close>, in document order: children
  with another tag and variables of another source are skipped, nothing is sorted and nothing
  is removed.
\<close>

theorem parse_variables_spec:
  assumes "list_all (\<lambda>v. tag v = ''variable'' \<longrightarrow> variable_ok v) (children tree_root)"
  shows "parse_variables (Inr tree_root)
         = Inr (map child_type
                  (filter (\<lambda>v. tag v = ''variable'' \<and> matched v) (children tree_root)))"
proof -
  have ok: "list_all variable_ok (findall ''variable'' tree_root)"
    using assms by (simp add: findall_def list_all_iff)
  have "filter matched (findall ''variable'' tree_root)
        = filter (\<lambda>v. tag v = ''variable'' \<and> matched v) (children tree_root)"
    by (simp add: findall_def)
  then show ?thesis
    using parse_variables_loop_ok[OF ok, of "[]"] by (simp add: parse_variables_def)
qed

theorem parse_variables_spec_witness:
  "parse_variables (Inr (Element ''BCVTB-variables'' []
      [Element ''variable'' [(''source'', ''EnergyPlus'')]
         [Element ''EnergyPlus'' [(''name'', ''Zone 1''), (''type'', ''Zone Temp'')] []],
       Element ''group'' [(''source'', ''EnergyPlus'')]
         [Element ''EnergyPlus'' [(''type'', ''T'')] []],
       Element ''variable'' [(''source'', ''Other'')]
         [Element ''Other'' [(''type'', ''Ignored'')] []]]))
   = Inr [''Zone Temp'']"
  using parse_variables_spec[of "Element ''BCVTB-variables'' []
      [Element ''variable'' [(''source'', ''EnergyPlus'')]
         [Element ''EnergyPlus'' [(''name'', ''Zone 1''), (''type'', ''Zone Temp'')] []],
       Element ''group'' [(''source'', ''EnergyPlus'')]
         [Element ''EnergyPlus'' [(''type'', ''T'')] []],
       Element ''variable'' [(''source'', ''Other'')]
         [Element ''Other'' [(''type'', ''Ignored'')] []]]"]
  by (simp add: variable_ok_def matched_def child_type_def)

text \<open>
  C7 (amended). \<^verbatim>\<open>parse_variables\<close> fails if and only if the document could not be
  parsed, or some top-level \<open>variable\<close> element has no \<open>source\<close> attribute, or a matched
  one has no child or a first child without \<open>type\<close>. A failure is an error value and carries
  no list. A variable that has a \<open>source\<close> other than \<open>EnergyPlus\<close> is as expected
  whatever else it holds, and the loop passes over it.
\<close>

theorem parse_variables_fails_iff:
  "((\<exists>e. parse_variables parsed = Inl e) \<longleftrightarrow>
      (\<exists>e. parsed = Inl e)
      \<or> (\<exists>tree_root. parsed = Inr tree_root
            \<and> \<not> list_all variable_ok (findall ''variable'' tree_root)))
   \<and> (map_of (attrib v) ''source'' = Some s \<and> s \<noteq> ''EnergyPlus'' \<longrightarrow>
        variable_ok v \<and> parse_variables_loop (v # rest) acc = parse_variables_loop rest acc)"
proof -
  have 1: "(\<exists>e. parse_variables parsed = Inl e) \<longleftrightarrow>
      (\<exists>e. parsed = Inl e)
      \<or> (\<exists>tree_root. parsed = Inr tree_root
            \<and> \<not> list_all variable_ok (findall ''variable'' tree_root))"
  proof (cases parsed)
    case (Inl e)
    then show ?thesis by (simp add: parse_variables_def)
  next
    case (Inr tr)
    show ?thesis
    proof (cases "list_all variable_ok (findall ''variable'' tr)")
      case True
      then show ?thesis using Inr parse_variables_loop_ok[OF True, of "[]"]
        by (simp add: parse_variables_def)
    next
      case False
      then show ?thesis using Inr parse_variables_loop_fail[OF False, of "[]"]
        by (simp add: parse_variables_def)
    qed
  qed
  have 2: "map_of (attrib v) ''source'' = Some s \<and> s \<noteq> ''EnergyPlus'' \<longrightarrow>
        variable_ok v \<and> parse_variables_loop (v # rest) acc = parse_variables_loop rest acc"
    by (auto simp add: variable_ok_def matched_def dict_getitem_def)
  show ?thesis using 1 2 by (rule conjI)
qed

theorem parse_variables_fails_iff_witness:
  "(\<exists>e. parse_variables (Inl ParseError) = Inl e)
   \<and> (\<exists>e. parse_variables (Inr (Element ''BCVTB-variables'' []
            [Element ''variable'' [(''source'', ''EnergyPlus'')] []])) = Inl e)
   \<and> parse_variables_loop
        [Element ''variable'' [(''source'', ''Other'')] [], Element ''variable'' [] []] []
      = parse_variables_loop [Element ''variable'' [] []] []"
  using parse_variables_fails_iff[of "Inl ParseError" "Element ''variable'' [(''source'', ''Other'')] []"
      "''Other''" "[Element ''variable'' [] []]" "[]"]
    parse_variables_fails_iff[of "Inr (Element ''BCVTB-variables'' []
            [Element ''variable'' [(''source'', ''EnergyPlus'')] []])"
      "Element ''variable'' [(''source'', ''Other'')] []" "''Other''" "[]" "[]"]
  by (simp add: findall_def variable_ok_def matched_def)

text \<open>
  The claim as written lets only a matched \<open>variable\<close> cause a failure. A well-formed
  document whose single \<open>variable\<close> has no \<open>source\<close> attribute has no matched variable,
  and the lookup of \<open>source\<close> raises.
\<close>

theorem parse_variables_missing_source:
  "filter matched (findall ''variable''
       (Element ''BCVTB-variables'' [] [Element ''variable'' [(''name'', ''x'')] []])) = []
   \<and> parse_variables (Inr (Element ''BCVTB-variables'' []
         [Element ''variable'' [(''name'', ''x'')] []])) = Inl (KeyError ''source'')"
  by (simp add: findall_def matched_def parse_variables_def dict_getitem_def)

section \<open>The weather series and its file\<close>

lemma map_fst_setcol_aux:
  "map fst (map (\<lambda>(n, x). if n = c then (n, v) else (n, x)) xs) = map fst xs"
  by (induction xs) auto

lemma df_setcol_names [simp]:
  "map fst (cols (df_setcol df c v)) = map fst (cols df)" "nrows (df_setcol df c v) = nrows df"
  unfolding df_setcol_def by (simp_all add: map_fst_setcol_aux del: map_map)

lemma map_of_setcol_aux:
  "map_of (map (\<lambda>(n, x). if n = c then (n, v) else (n, x)) xs) c' =
     (if c' = c \<and> map_of xs c \<noteq> None then Some v else map_of xs c')"
proof (induction xs)
  case Nil
  show ?case by simp
next
  case (Cons a xs)
  obtain n x where a: "a = (n, x)" by (cases a)
  show ?case unfolding a using Cons.IH by (cases "n = c"; cases "c' = c"; simp)
qed

lemma map_of_df_setcol:
  "map_of (cols (df_setcol df c v)) c' =
     (if c' = c \<and> map_of (cols df) c \<noteq> None then Some v else map_of (cols df) c')"
  unfolding df_setcol_def by (simp add: map_of_setcol_aux)

lemma setcol_same_aux:
  "map_of xs c = Some v \<Longrightarrow> distinct (map fst xs) \<Longrightarrow>
   map (\<lambda>(n, x). if n = c then (n, v) else (n, x)) xs = xs"
proof (induction xs)
  case Nil
  show ?case by simp
next
  case (Cons a xs)
  obtain n x where a: "a = (n, x)" by (cases a)
  show ?case
  proof (cases "n = c")
    case True
    then have x: "x = v" using Cons.prems(1) a by simp
    have "c \<notin> fst ` set xs" using Cons.prems(2) a True by simp
    then have "\<And>p. p \<in> set xs \<Longrightarrow> fst p \<noteq> c" by force
    then have "map (\<lambda>(n, x). if n = c then (n, v) else (n, x)) xs = xs"
      by (intro map_idI) (simp add: case_prod_beta)
    then show ?thesis using a True x by simp
  next
    case False
    then show ?thesis using Cons a by simp
  qed
qed

lemma df_setcol_same:
  assumes "map_of (cols df) c = Some v" "distinct (map fst (cols df))"
  shows "df_setcol df c v = df"
  unfolding df_setcol_def using setcol_same_aux[OF assms] by simp

lemma df_assign_names [simp]:
  "map fst (cols (df_assign df cs vs)) = map fst (cols df)" "nrows (df_assign df cs vs) = nrows df"
  by (induction df cs vs rule: df_assign.induct) simp_all

lemma df_assign_other:
  "c \<notin> set cs \<Longrightarrow> map_of (cols (df_assign df cs vs)) c = map_of (cols df) c"
  by (induction df cs vs rule: df_assign.induct) (simp_all add: map_of_df_setcol)

lemma df_setcol_present:
  "map_of (cols (df_setcol df c v)) c' \<noteq> None \<longleftrightarrow> map_of (cols df) c' \<noteq> None"
  by (simp add: map_of_df_setcol)

lemma df_assign_target:
  assumes "distinct cs" "length vs = length cs" "\<forall>c\<in>set cs. map_of (cols df) c \<noteq> None"
    "j < length cs"
  shows "map_of (cols (df_assign df cs vs)) (cs ! j) = Some (vs ! j)"
  using assms
proof (induction df cs vs arbitrary: j rule: df_assign.induct)
  case (1 df c cs v vs)
  show ?case
  proof (cases j)
    case 0
    have "c \<notin> set cs" using "1.prems"(1) by simp
    moreover have "map_of (cols df) c \<noteq> None" using "1.prems"(3) by simp
    ultimately show ?thesis using 0 by (simp add: df_assign_other map_of_df_setcol)
  next
    case (Suc k)
    have "\<forall>c'\<in>set cs. map_of (cols (df_setcol df c v)) c' \<noteq> None"
      using "1.prems"(3) by (auto simp add: map_of_df_setcol)
    moreover have "distinct cs" "length vs = length cs" "k < length cs"
      using "1.prems" Suc by simp_all
    ultimately have "map_of (cols (df_assign (df_setcol df c v) cs vs)) (cs ! k) = Some (vs ! k)"
      by (intro "1.IH") simp_all
    then show ?thesis using Suc by simp
  qed
qed simp_all

lemma df_select_ok:
  "\<forall>c\<in>set cs. map_of (cols df) c \<noteq> None \<Longrightarrow>
   \<exists>vs. df_select df cs = Inr vs \<and> length vs = length cs
        \<and> (\<forall>j<length cs. map_of (cols df) (cs ! j) = Some (vs ! j))"
proof (induction cs)
  case Nil
  then show ?case by simp
next
  case (Cons c cs)
  then obtain vs where vs: "df_select df cs = Inr vs" "length vs = length cs"
    "\<forall>j<length cs. map_of (cols df) (cs ! j) = Some (vs ! j)" by auto
  from Cons.prems obtain v where v: "map_of (cols df) c = Some v" by auto
  have sel: "df_select df (c # cs) = Inr (v # vs)"
    using vs(1) v by (simp add: df_getcol_def dict_getitem_def)
  have "\<forall>j<length (c # cs). map_of (cols df) ((c # cs) ! j) = Some ((v # vs) ! j)"
  proof (intro allI impI)
    fix j assume "j < length (c # cs)"
    then show "map_of (cols df) ((c # cs) ! j) = Some ((v # vs) ! j)"
      using v vs(3) by (cases j) simp_all
  qed
  then show ?case using sel vs(2) by simp
qed

lemma add_noise_length [simp]: "length (add_noise selected noise) = length selected"
  by (simp add: add_noise_def)

lemma add_noise_nth:
  assumes "j < length selected"
  shows "length (add_noise selected noise ! j) = length (selected ! j)"
    and "i < length (selected ! j) \<Longrightarrow>
         add_noise selected noise ! j ! i = selected ! j ! i + noise ! i ! j"
  using assms by (simp_all add: add_noise_def)

lemma random_normal_nth:
  assumes "0 \<le> std"
  shows "\<exists>noise g. random_normal mu std (n, k) g0 = Inr (noise, g)
           \<and> (\<forall>i<n. \<forall>j<k. noise ! i ! j = mu + std * g0 (i * k + j))"
  using assms by (simp add: random_normal_def)

lemma df_assign_same:
  assumes "\<forall>j<length cs. map_of (cols df) (cs ! j) = Some (vs ! j)" "length vs = length cs"
    "distinct (map fst (cols df))"
  shows "df_assign df cs vs = df"
  using assms
proof (induction df cs vs rule: df_assign.induct)
  case (1 df c cs v vs)
  have "map_of (cols df) c = Some v" using "1.prems"(1) by force
  then have same: "df_setcol df c v = df" using "1.prems"(3) by (rule df_setcol_same)
  have "\<forall>j<length cs. map_of (cols df) (cs ! j) = Some (vs ! j)"
  proof (intro allI impI)
    fix j assume "j < length cs"
    then have "Suc j < length (c # cs)" by simp
    from "1.prems"(1)[rule_format, OF this] show "map_of (cols df) (cs ! j) = Some (vs ! j)" by simp
  qed
  then show ?case using "1.IH" "1.prems"(2,3) same by simp
qed simp_all

lemma add_noise_zero:
  assumes "\<forall>j<length selected. \<forall>i<length (selected ! j). noise ! i ! j = 0"
  shows "add_noise selected noise = selected"
proof (rule nth_equalityI)
  show "length (add_noise selected noise) = length selected" by simp
next
  fix j assume "j < length (add_noise selected noise)"
  then have j: "j < length selected" by simp
  show "add_noise selected noise ! j = selected ! j"
  proof (rule nth_equalityI)
    show "length (add_noise selected noise ! j) = length (selected ! j)"
      using j by (rule add_noise_nth(1))
  next
    fix i assume "i < length (add_noise selected noise ! j)"
    then have i: "i < length (selected ! j)" using add_noise_nth(1)[OF j, of noise] by simp
    show "add_noise selected noise ! j ! i = selected ! j ! i"
      using add_noise_nth(2)[OF j i, of noise] assms j i by simp
  qed
qed

lemma df_wf_length:
  assumes "df_wf df" "map_of (cols df) c = Some v"
  shows "length v = nrows df"
proof -
  have "(c, v) \<in> set (cols df)" using assms(2) by (rule map_of_SomeD)
  then show ?thesis using assms(1) by (auto simp add: df_wf_def list_all_iff)
qed

lemma columns_present:
  "set columns \<subseteq> fst ` set (cols df) \<longleftrightarrow> (\<forall>c\<in>set columns. map_of (cols df) c \<noteq> None)"
  by (auto simp add: map_of_eq_None_iff)

lemma create_variable_weather_some:
  assumes "\<forall>c\<in>set columns. map_of (cols (weather_series w)) c \<noteq> None"
    and "distinct columns" and "0 \<le> num_val std"
  shows "\<exists>noise g selected.
      random_normal (num_val mu) (num_val std) (nrows (weather_series w), length columns) (rng w)
        = Inr (noise, g)
    \<and> (\<forall>i<nrows (weather_series w). \<forall>j<length columns.
           noise ! i ! j = num_val mu + num_val std * rng w (i * length columns + j))
    \<and> df_select (weather_series w) columns = Inr selected
    \<and> length selected = length columns
    \<and> (\<forall>j<length columns. map_of (cols (weather_series w)) (columns ! j) = Some (selected ! j))
    \<and> create_variable_weather repr_float w original_epw_file columns (Some (mu, std))
        = (if writable w (split_first ''.epw'' original_epw_file @ ''_Random_''
                            @ py_str repr_float mu @ ''_'' @ py_str repr_float std @ ''.epw'')
           then (Inr (Some (split_first ''.epw'' original_epw_file @ ''_Random_''
                              @ py_str repr_float mu @ ''_'' @ py_str repr_float std @ ''.epw'')),
                 w\<lparr>rng := g,
                    weather_series := df_assign (weather_series w) columns (add_noise selected noise),
                    files := (files w)(split_first ''.epw'' original_epw_file @ ''_Random_''
                                   @ py_str repr_float mu @ ''_'' @ py_str repr_float std @ ''.epw''
                                 \<mapsto> df_assign (weather_series w) columns (add_noise selected noise))\<rparr>)
           else (Inl OSError,
                 w\<lparr>rng := g,
                    weather_series := df_assign (weather_series w) columns (add_noise selected noise)\<rparr>))"
proof -
  obtain noise g where n: "random_normal (num_val mu) (num_val std)
      (nrows (weather_series w), length columns) (rng w) = Inr (noise, g)"
    and nz: "\<forall>i<nrows (weather_series w). \<forall>j<length columns.
           noise ! i ! j = num_val mu + num_val std * rng w (i * length columns + j)"
    using random_normal_nth[OF assms(3)] by blast
  obtain selected where s: "df_select (weather_series w) columns = Inr selected"
    and sl: "length selected = length columns"
    and sv: "\<forall>j<length columns. map_of (cols (weather_series w)) (columns ! j) = Some (selected ! j)"
    using df_select_ok[OF assms(1)] by blast
  have "create_variable_weather repr_float w original_epw_file columns (Some (mu, std))
        = (if writable w (split_first ''.epw'' original_epw_file @ ''_Random_''
                            @ py_str repr_float mu @ ''_'' @ py_str repr_float std @ ''.epw'')
           then (Inr (Some (split_first ''.epw'' original_epw_file @ ''_Random_''
                              @ py_str repr_float mu @ ''_'' @ py_str repr_float std @ ''.epw'')),
                 w\<lparr>rng := g,
                    weather_series := df_assign (weather_series w) columns (add_noise selected noise),
                    files := (files w)(split_first ''.epw'' original_epw_file @ ''_Random_''
                                   @ py_str repr_float mu @ ''_'' @ py_str repr_float std @ ''.epw''
                                 \<mapsto> df_assign (weather_series w) columns (add_noise selected noise))\<rparr>)
           else (Inl OSError,
                 w\<lparr>rng := g,
                    weather_series := df_assign (weather_series w) columns (add_noise selected noise)\<rparr>))"
    using n s assms(2) by (simp add: create_variable_weather_def df_iadd_def Let_def)
  then show ?thesis using n nz s sl sv by blast
qed

lemma list2_nth: "length xs = 2 \<Longrightarrow> xs = [xs ! 0, xs ! 1]"
  by (cases xs; cases "tl xs") auto

text \<open>
  C4. Without a variation \<^verbatim>\<open>create_variable_weather\<close> returns \<^verbatim>\<open>None\<close>, which is a
  value and no error, and leaves the world as it was: the series of the weather object,
  every file and the random generator.
\<close>

theorem create_variable_weather_none:
  "create_variable_weather repr_float w original_epw_file columns None = (Inr None, w)"
  by (simp add: create_variable_weather_def)

lemma create_variable_weather_targets:
  assumes "df_wf (weather_series w)"
    and "set columns \<subseteq> fst ` set (cols (weather_series w))"
    and "distinct columns"
    and "0 \<le> num_val std"
  shows "\<exists>res w'.
      create_variable_weather repr_float w original_epw_file columns (Some (mu, std)) = (res, w')
    \<and> res = (if writable w (split_first ''.epw'' original_epw_file @ ''_Random_''
                               @ py_str repr_float mu @ ''_'' @ py_str repr_float std @ ''.epw'')
              then Inr (Some (split_first ''.epw'' original_epw_file @ ''_Random_''
                               @ py_str repr_float mu @ ''_'' @ py_str repr_float std @ ''.epw''))
              else Inl OSError)
    \<and> map fst (cols (weather_series w')) = map fst (cols (weather_series w))
    \<and> nrows (weather_series w') = nrows (weather_series w)
    \<and> (\<forall>c. c \<notin> set columns \<longrightarrow>
           map_of (cols (weather_series w')) c = map_of (cols (weather_series w)) c)
    \<and> (\<forall>j<length columns. \<exists>old new.
              map_of (cols (weather_series w)) (columns ! j) = Some old
            \<and> map_of (cols (weather_series w')) (columns ! j) = Some new
            \<and> length new = nrows (weather_series w)
            \<and> (\<forall>i<nrows (weather_series w).
                  new ! i = old ! i + (num_val mu + num_val std * rng w (i * length columns + j))))
    \<and> (num_val mu = 0 \<and> num_val std = 0 \<longrightarrow> weather_series w' = weather_series w)"
proof -
  let ?df = "weather_series w"
  let ?n = "nrows ?df" and ?k = "length columns"
  let ?f = "split_first ''.epw'' original_epw_file @ ''_Random_''
              @ py_str repr_float mu @ ''_'' @ py_str repr_float std @ ''.epw''"
  have pres: "\<forall>c\<in>set columns. map_of (cols ?df) c \<noteq> None"
    using assms(2) by (simp only: columns_present)
  obtain noise g selected where
    nz: "\<forall>i<?n. \<forall>j<?k. noise ! i ! j = num_val mu + num_val std * rng w (i * ?k + j)"
    and sl: "length selected = ?k"
    and sv: "\<forall>j<?k. map_of (cols ?df) (columns ! j) = Some (selected ! j)"
    and cr: "create_variable_weather repr_float w original_epw_file columns (Some (mu, std))
        = (if writable w ?f
           then (Inr (Some ?f),
                 w\<lparr>rng := g,
                    weather_series := df_assign ?df columns (add_noise selected noise),
                    files := (files w)(?f \<mapsto> df_assign ?df columns (add_noise selected noise))\<rparr>)
           else (Inl OSError,
                 w\<lparr>rng := g,
                    weather_series := df_assign ?df columns (add_noise selected noise)\<rparr>))"
    using create_variable_weather_some[OF pres assms(3,4), of mu repr_float original_epw_file]
    by blast
  define df' where "df' = df_assign ?df columns (add_noise selected noise)"
  define res where "res = (if writable w ?f then Inr (Some ?f) else Inl OSError :: error + string option)"
  define w' where "w' = (if writable w ?f
      then w\<lparr>rng := g, weather_series := df', files := (files w)(?f \<mapsto> df')\<rparr>
      else w\<lparr>rng := g, weather_series := df'\<rparr>)"
  have r: "create_variable_weather repr_float w original_epw_file columns (Some (mu, std)) = (res, w')"
    unfolding cr res_def w'_def df'_def by simp
  have ws: "weather_series w' = df'" by (simp add: w'_def)
  have names: "map fst (cols df') = map fst (cols ?df)" and rows: "nrows df' = ?n"
    by (simp_all add: df'_def)
  have other: "\<forall>c. c \<notin> set columns \<longrightarrow> map_of (cols df') c = map_of (cols ?df) c"
    by (simp add: df'_def df_assign_other)
  have len: "length (selected ! j) = ?n" if "j < ?k" for j
  proof -
    have "map_of (cols ?df) (columns ! j) = Some (selected ! j)" using sv that by simp
    then show ?thesis by (rule df_wf_length[OF assms(1)])
  qed
  have target: "\<forall>j<?k. \<exists>old new.
              map_of (cols ?df) (columns ! j) = Some old
            \<and> map_of (cols df') (columns ! j) = Some new
            \<and> length new = ?n
            \<and> (\<forall>i<?n. new ! i = old ! i + (num_val mu + num_val std * rng w (i * ?k + j)))"
  proof (intro impI allI)
    fix j assume j: "j < ?k"
    have js: "j < length selected" using j sl by simp
    have new: "map_of (cols df') (columns ! j) = Some (add_noise selected noise ! j)"
      unfolding df'_def using assms(3) _ pres j by (rule df_assign_target) (simp add: sl)
    have l: "length (add_noise selected noise ! j) = ?n"
      using add_noise_nth(1)[OF js, of noise] len[OF j] by simp
    have v: "\<forall>i<?n. add_noise selected noise ! j ! i
                = selected ! j ! i + (num_val mu + num_val std * rng w (i * ?k + j))"
    proof (intro allI impI)
      fix i assume i: "i < ?n"
      then have "i < length (selected ! j)" using len[OF j] by simp
      from add_noise_nth(2)[OF js this, of noise] nz i j
      show "add_noise selected noise ! j ! i
                = selected ! j ! i + (num_val mu + num_val std * rng w (i * ?k + j))" by simp
    qed
    show "\<exists>old new.
              map_of (cols ?df) (columns ! j) = Some old
            \<and> map_of (cols df') (columns ! j) = Some new
            \<and> length new = ?n
            \<and> (\<forall>i<?n. new ! i = old ! i + (num_val mu + num_val std * rng w (i * ?k + j)))"
      using sv j new l v by blast
  qed
  have zero: "num_val mu = 0 \<and> num_val std = 0 \<longrightarrow> df' = ?df"
  proof
    assume z: "num_val mu = 0 \<and> num_val std = 0"
    have "\<forall>j<length selected. \<forall>i<length (selected ! j). noise ! i ! j = 0"
    proof (intro allI impI)
      fix j i assume j: "j < length selected" and i: "i < length (selected ! j)"
      then have "j < ?k" "i < ?n" using sl len[of j] by simp_all
      then show "noise ! i ! j = 0" using nz z by simp
    qed
    then have "add_noise selected noise = selected" by (rule add_noise_zero)
    moreover have "df_assign ?df columns selected = ?df"
      using sv sl assms(1) by (intro df_assign_same) (simp_all add: df_wf_def)
    ultimately show "df' = ?df" by (simp add: df'_def)
  qed
  have rs: "res = (if writable w ?f then Inr (Some ?f) else Inl OSError)" by (simp add: res_def)
  show ?thesis
    using r rs names rows other target zero unfolding ws[symmetric] by blast
qed

text \<open>
  Whatever the arguments are, and also when the call raises, the series of the weather object
  keeps its column names, its number of rows and every column that is no target.
\<close>

lemma create_variable_weather_any_call:
  "map fst (cols (weather_series (snd (create_variable_weather repr_float w original_epw_file
       columns variation)))) = map fst (cols (weather_series w))
   \<and> nrows (weather_series (snd (create_variable_weather repr_float w original_epw_file
       columns variation))) = nrows (weather_series w)
   \<and> (c \<notin> set columns \<longrightarrow>
        map_of (cols (weather_series (snd (create_variable_weather repr_float w original_epw_file
          columns variation)))) c = map_of (cols (weather_series w)) c)"
proof (cases variation)
  case None
  then show ?thesis by (simp add: create_variable_weather_def)
next
  case (Some v)
  obtain mu std where v: "v = (mu, std)" by (cases v)
  show ?thesis
  proof (cases "random_normal (num_val mu) (num_val std)
                  (nrows (weather_series w), length columns) (rng w)")
    case (Inl e)
    then show ?thesis using Some v by (simp add: create_variable_weather_def)
  next
    case (Inr p)
    obtain noise g where p: "p = (noise, g)" by (cases p)
    show ?thesis
    proof (cases "df_select (weather_series w) columns")
      case (Inl e)
      then show ?thesis using Some v Inr p
        by (simp add: create_variable_weather_def df_iadd_def)
    next
      case sel: (Inr selected)
      then show ?thesis using Some v Inr p
        by (simp add: create_variable_weather_def df_iadd_def Let_def df_assign_other)
    qed
  qed
qed

text \<open>
  C5. A call with a variation \<open>(mu, std)\<close> changes the series only in the target columns:
  whatever the arguments are, the column names and the number of rows stay and every column
  that is no target is the one of the input. When the series is well formed, the targets are
  distinct columns of it and the deviation is not negative, the cell of row \<open>i\<close> and target
  \<open>j\<close> is the old cell plus \<open>mu + std * z\<close> for the draw \<open>z\<close> of its own index
  \<open>i * length columns + j\<close>, and with \<open>(0, 0)\<close> the whole series is unchanged; the call
  then returns the new path when the file can be written there and raises \<^verbatim>\<open>OSError\<close>
  otherwise.
\<close>

theorem create_variable_weather_frame:
  "map fst (cols (weather_series (snd (create_variable_weather repr_float w original_epw_file
       columns (Some (mu, std)))))) = map fst (cols (weather_series w))
   \<and> nrows (weather_series (snd (create_variable_weather repr_float w original_epw_file
       columns (Some (mu, std))))) = nrows (weather_series w)
   \<and> (\<forall>c. c \<notin> set columns \<longrightarrow>
         map_of (cols (weather_series (snd (create_variable_weather repr_float w
           original_epw_file columns (Some (mu, std)))))) c = map_of (cols (weather_series w)) c)
   \<and> (df_wf (weather_series w) \<and> set columns \<subseteq> fst ` set (cols (weather_series w))
        \<and> distinct columns \<and> 0 \<le> num_val std \<longrightarrow>
         fst (create_variable_weather repr_float w original_epw_file columns (Some (mu, std)))
           = (if writable w (split_first ''.epw'' original_epw_file @ ''_Random_''
                               @ py_str repr_float mu @ ''_'' @ py_str repr_float std @ ''.epw'')
              then Inr (Some (split_first ''.epw'' original_epw_file @ ''_Random_''
                               @ py_str repr_float mu @ ''_'' @ py_str repr_float std @ ''.epw''))
              else Inl OSError)
       \<and> (\<forall>j<length columns. \<exists>old new.
              map_of (cols (weather_series w)) (columns ! j) = Some old
            \<and> map_of (cols (weather_series (snd (create_variable_weather repr_float w
                  original_epw_file columns (Some (mu, std)))))) (columns ! j) = Some new
            \<and> length new = nrows (weather_series w)
            \<and> (\<forall>i<nrows (weather_series w).
                  new ! i = old ! i + (num_val mu + num_val std * rng w (i * length columns + j))))
       \<and> (num_val mu = 0 \<and> num_val std = 0 \<longrightarrow>
            weather_series (snd (create_variable_weather repr_float w original_epw_file columns
              (Some (mu, std)))) = weather_series w))"
proof -
  let ?R = "create_variable_weather repr_float w original_epw_file columns (Some (mu, std))"
  have any: "map fst (cols (weather_series (snd ?R))) = map fst (cols (weather_series w))"
    "nrows (weather_series (snd ?R)) = nrows (weather_series w)"
    "\<forall>c. c \<notin> set columns \<longrightarrow>
         map_of (cols (weather_series (snd ?R))) c = map_of (cols (weather_series w)) c"
    using create_variable_weather_any_call[of repr_float w original_epw_file columns "Some (mu, std)"]
    by blast+
  have tg: "df_wf (weather_series w) \<and> set columns \<subseteq> fst ` set (cols (weather_series w))
        \<and> distinct columns \<and> 0 \<le> num_val std \<longrightarrow>
         fst ?R
           = (if writable w (split_first ''.epw'' original_epw_file @ ''_Random_''
                               @ py_str repr_float mu @ ''_'' @ py_str repr_float std @ ''.epw'')
              then Inr (Some (split_first ''.epw'' original_epw_file @ ''_Random_''
                               @ py_str repr_float mu @ ''_'' @ py_str repr_float std @ ''.epw''))
              else Inl OSError)
       \<and> (\<forall>j<length columns. \<exists>old new.
              map_of (cols (weather_series w)) (columns ! j) = Some old
            \<and> map_of (cols (weather_series (snd ?R))) (columns ! j) = Some new
            \<and> length new = nrows (weather_series w)
            \<and> (\<forall>i<nrows (weather_series w).
                  new ! i = old ! i + (num_val mu + num_val std * rng w (i * length columns + j))))
       \<and> (num_val mu = 0 \<and> num_val std = 0 \<longrightarrow> weather_series (snd ?R) = weather_series w)"
  proof (intro impI, elim conjE)
    assume h: "df_wf (weather_series w)" "set columns \<subseteq> fst ` set (cols (weather_series w))"
      "distinct columns" "0 \<le> num_val std"
    from create_variable_weather_targets[OF h, where repr_float = repr_float
        and original_epw_file = original_epw_file and mu = mu]
    obtain res w' where r: "?R = (res, w')"
      and rest: "res = (if writable w (split_first ''.epw'' original_epw_file @ ''_Random_''
                               @ py_str repr_float mu @ ''_'' @ py_str repr_float std @ ''.epw'')
              then Inr (Some (split_first ''.epw'' original_epw_file @ ''_Random_''
                               @ py_str repr_float mu @ ''_'' @ py_str repr_float std @ ''.epw''))
              else Inl OSError)"
      "\<forall>j<length columns. \<exists>old new.
              map_of (cols (weather_series w)) (columns ! j) = Some old
            \<and> map_of (cols (weather_series w')) (columns ! j) = Some new
            \<and> length new = nrows (weather_series w)
            \<and> (\<forall>i<nrows (weather_series w).
                  new ! i = old ! i + (num_val mu + num_val std * rng w (i * length columns + j)))"
      "num_val mu = 0 \<and> num_val std = 0 \<longrightarrow> weather_series w' = weather_series w"
      by blast
    have s: "snd ?R = w'" "fst ?R = res" by (simp_all add: r)
    show "fst ?R
           = (if writable w (split_first ''.epw'' original_epw_file @ ''_Random_''
                               @ py_str repr_float mu @ ''_'' @ py_str repr_float std @ ''.epw'')
              then Inr (Some (split_first ''.epw'' original_epw_file @ ''_Random_''
                               @ py_str repr_float mu @ ''_'' @ py_str repr_float std @ ''.epw''))
              else Inl OSError)
       \<and> (\<forall>j<length columns. \<exists>old new.
              map_of (cols (weather_series w)) (columns ! j) = Some old
            \<and> map_of (cols (weather_series (snd ?R))) (columns ! j) = Some new
            \<and> length new = nrows (weather_series w)
            \<and> (\<forall>i<nrows (weather_series w).
                  new ! i = old ! i + (num_val mu + num_val std * rng w (i * length columns + j))))
       \<and> (num_val mu = 0 \<and> num_val std = 0 \<longrightarrow> weather_series (snd ?R) = weather_series w)"
      unfolding s using rest by (intro conjI)
  qed
  show ?thesis using any tg by (intro conjI)
qed

theorem create_variable_weather_frame_witness:
  "weather_series (snd (create_variable_weather (\<lambda>r. [])
      \<lparr>weather_series = \<lparr>nrows = 2, cols = [(''drybulb'', [1, 2]), (''relhum'', [50, 60])]\<rparr>,
       files = Map.empty, writable = (\<lambda>p. True), rng = (\<lambda>i. real i)\<rparr>
      ''X.epw'' [''drybulb''] (Some (PyInt 0, PyInt 0))))
   = \<lparr>nrows = 2, cols = [(''drybulb'', [1, 2]), (''relhum'', [50, 60])]\<rparr>
   \<and> map_of (cols (weather_series (snd (create_variable_weather (\<lambda>r. [])
      \<lparr>weather_series = \<lparr>nrows = 2, cols = [(''drybulb'', [1, 2]), (''relhum'', [50, 60])]\<rparr>,
       files = Map.empty, writable = (\<lambda>p. True), rng = (\<lambda>i. real i)\<rparr>
      ''X.epw'' [''drybulb''] (Some (PyInt 1, PyInt 2)))))) ''relhum'' = Some [50, 60]
   \<and> map_of (cols (weather_series (snd (create_variable_weather (\<lambda>r. [])
      \<lparr>weather_series = \<lparr>nrows = 2, cols = [(''drybulb'', [1, 2]), (''relhum'', [50, 60])]\<rparr>,
       files = Map.empty, writable = (\<lambda>p. True), rng = (\<lambda>i. real i)\<rparr>
      ''X.epw'' [''drybulb''] (Some (PyInt 1, PyInt 2)))))) ''drybulb'' = Some [2, 5]"
proof -
  let ?w = "\<lparr>weather_series = \<lparr>nrows = 2, cols = [(''drybulb'', [1, 2]), (''relhum'', [50, 60])]\<rparr>,
       files = Map.empty, writable = (\<lambda>p. True), rng = (\<lambda>i. real i)\<rparr>"
  let ?R0 = "create_variable_weather (\<lambda>r. []) ?w ''X.epw'' [''drybulb''] (Some (PyInt 0, PyInt 0))"
  let ?R1 = "create_variable_weather (\<lambda>r. []) ?w ''X.epw'' [''drybulb''] (Some (PyInt 1, PyInt 2))"
  have h0: "df_wf (weather_series ?w) \<and> set [''drybulb''] \<subseteq> fst ` set (cols (weather_series ?w))
        \<and> distinct [''drybulb''] \<and> 0 \<le> num_val (PyInt 0)" by (simp add: df_wf_def)
  have h2: "df_wf (weather_series ?w) \<and> set [''drybulb''] \<subseteq> fst ` set (cols (weather_series ?w))
        \<and> distinct [''drybulb''] \<and> 0 \<le> num_val (PyInt 2)" by (simp add: df_wf_def)
  note T0 = create_variable_weather_frame[where repr_float = "\<lambda>r. []" and w = ?w
      and original_epw_file = "''X.epw''" and columns = "[''drybulb'']" and mu = "PyInt 0"
      and std = "PyInt 0"]
  note T1 = create_variable_weather_frame[where repr_float = "\<lambda>r. []" and w = ?w
      and original_epw_file = "''X.epw''" and columns = "[''drybulb'']" and mu = "PyInt 1"
      and std = "PyInt 2"]
  have z: "num_val (PyInt 0) = 0 \<and> num_val (PyInt 0) = 0 \<longrightarrow>
             weather_series (snd ?R0) = weather_series ?w"
    using T0 h0 by blast
  then have a: "weather_series (snd ?R0) = weather_series ?w" by simp
  have o1: "\<forall>c. c \<notin> set [''drybulb''] \<longrightarrow>
               map_of (cols (weather_series (snd ?R1))) c = map_of (cols (weather_series ?w)) c"
    using T1 by blast
  have b: "map_of (cols (weather_series (snd ?R1))) ''relhum''
           = map_of (cols (weather_series ?w)) ''relhum''"
    using o1[rule_format, of "''relhum''"] by simp
  have t1: "\<forall>j<length [''drybulb'']. \<exists>old new.
              map_of (cols (weather_series ?w)) ([''drybulb''] ! j) = Some old
            \<and> map_of (cols (weather_series (snd ?R1))) ([''drybulb''] ! j) = Some new
            \<and> length new = nrows (weather_series ?w)
            \<and> (\<forall>i<nrows (weather_series ?w).
                  new ! i = old ! i + (num_val (PyInt 1) + num_val (PyInt 2)
                                        * rng ?w (i * length [''drybulb''] + j)))"
    using T1 h2 by blast
  obtain new where n1: "map_of (cols (weather_series (snd ?R1))) ''drybulb'' = Some new"
    and n2: "length new = 2"
    and n3: "\<forall>i<2. new ! i = [1, 2] ! i + (1 + 2 * real i)"
    using t1[rule_format, of 0] by auto
  have "new ! 0 = 2" "new ! 1 = 5" using n3 by simp_all
  then have "new = [2, 5]" using list2_nth[OF n2] by simp
  then have c: "map_of (cols (weather_series (snd ?R1))) ''drybulb'' = Some [2, 5]"
    using n1 by simp
  show ?thesis using a b c by simp
qed

lemma split_first_suffix:
  assumes "\<forall>i<length X. take (length sep) (drop i (X @ sep)) \<noteq> sep"
  shows "split_first sep (X @ sep) = X"
  using assms
proof (induction X)
  case Nil
  show ?case by (cases sep) simp_all
next
  case (Cons c cs)
  have "take (length sep) ((c # cs) @ sep) \<noteq> sep" using Cons.prems by force
  moreover have "\<forall>i<length cs. take (length sep) (drop i (cs @ sep)) \<noteq> sep"
  proof (intro allI impI)
    fix i assume "i < length cs"
    then have "Suc i < length (c # cs)" by simp
    from Cons.prems[rule_format, OF this] show "take (length sep) (drop i (cs @ sep)) \<noteq> sep"
      by simp
  qed
  ultimately show ?case using Cons.IH by simp
qed

text \<open>
  When \<open>.epw\<close> occurs in the path only as its suffix and the new path can be written, the
  file is written under, and the call returns, the path with the suffix replaced by
  \<open>_Random_<mean>_<std>.epw\<close>.
\<close>

lemma create_variable_weather_filename:
  assumes "set columns \<subseteq> fst ` set (cols (weather_series w))"
    and "distinct columns"
    and "0 \<le> num_val std"
    and "\<forall>i<length X. take 4 (drop i (X @ ''.epw'')) \<noteq> ''.epw''"
    and "writable w (X @ ''_Random_'' @ py_str repr_float mu @ ''_'' @ py_str repr_float std
                       @ ''.epw'')"
  shows "\<exists>w'. create_variable_weather repr_float w (X @ ''.epw'') columns (Some (mu, std))
           = (Inr (Some (X @ ''_Random_'' @ py_str repr_float mu @ ''_'' @ py_str repr_float std
                          @ ''.epw'')), w')
         \<and> files w' (X @ ''_Random_'' @ py_str repr_float mu @ ''_'' @ py_str repr_float std
                          @ ''.epw'') = Some (weather_series w')"
proof -
  have pres: "\<forall>c\<in>set columns. map_of (cols (weather_series w)) c \<noteq> None"
    using assms(1) by (simp only: columns_present)
  have l: "length ''.epw'' = 4" by simp
  have "\<forall>i<length X. take (length ''.epw'') (drop i (X @ ''.epw'')) \<noteq> ''.epw''"
    using assms(4) by (simp only: l)
  then have sp: "split_first ''.epw'' (X @ ''.epw'') = X" by (rule split_first_suffix)
  from create_variable_weather_some[OF pres assms(2,3), of mu repr_float "X @ ''.epw''"] assms(5)
  show ?thesis unfolding sp by auto
qed

text \<open>
  C6. The docstring promises a file "in the same location as the original one" and the
  claim the path with the \<open>.epw\<close> suffix replaced. The code cuts the path at the first
  \<open>.epw\<close>, which need not be the suffix: for an original in a directory
  \<open>runs.epw.d\<close> the new file lands beside that directory, not in it.
\<close>

theorem create_variable_weather_epw_in_directory:
  "fst (create_variable_weather (\<lambda>r. [])
      \<lparr>weather_series = \<lparr>nrows = 2, cols = [(''drybulb'', [1, 2]), (''relhum'', [50, 60])]\<rparr>,
       files = Map.empty, writable = (\<lambda>p. True), rng = (\<lambda>i. real i)\<rparr>
      ''runs.epw.d/city.epw'' [''drybulb''] (Some (PyInt 0, PyInt 2)))
   = Inr (Some ''runs_Random_0_2.epw'')"
proof -
  let ?w = "\<lparr>weather_series = \<lparr>nrows = 2, cols = [(''drybulb'', [1, 2]), (''relhum'', [50, 60])]\<rparr>,
       files = Map.empty, writable = (\<lambda>p. True), rng = (\<lambda>i. real i)\<rparr>"
  have pres: "\<forall>c\<in>set [''drybulb'']. map_of (cols (weather_series ?w)) c \<noteq> None" by simp
  have di: "distinct [''drybulb'']" by simp
  have std: "0 \<le> num_val (PyInt 2)" by simp
  have sp: "split_first ''.epw'' ''runs.epw.d/city.epw'' = ''runs''" by simp
  have s0: "str_int 0 = ''0''" "str_int 2 = ''2''"
    by (simp_all add: str_int_def str_nat.simps digit_char_def)
  from create_variable_weather_some[OF pres di std, of "PyInt 0" "\<lambda>r. []" "''runs.epw.d/city.epw''"]
  show ?thesis unfolding sp by (auto simp add: s0)
qed

section \<open>The configured logger\<close>

lemma same_settings_refl [simp]: "same_settings a a"
  by (simp add: same_settings_def)

lemma same_settings_trans: "same_settings a b \<Longrightarrow> same_settings b c \<Longrightarrow> same_settings a c"
  by (simp add: same_settings_def)

lemma same_loggers_refl [simp]: "same_loggers st st"
  by (simp add: same_loggers_def option.rel_refl)

lemma same_loggers_trans:
  assumes "same_loggers a b" "same_loggers b c"
  shows "same_loggers a c"
  unfolding same_loggers_def
proof
  fix r
  have 1: "rel_option same_settings (lookup_logger a r) (lookup_logger b r)"
    and 2: "rel_option same_settings (lookup_logger b r) (lookup_logger c r)"
    using assms by (simp_all add: same_loggers_def)
  show "rel_option same_settings (lookup_logger a r) (lookup_logger c r)"
    using 1 2 by (cases "lookup_logger a r"; cases "lookup_logger b r"; cases "lookup_logger c r")
      (auto intro: same_settings_trans)
qed

lemma lookup_update_logger:
  "lookup_logger (update_logger st r f) r' =
     (if r' = r then map_option f (lookup_logger st r) else lookup_logger st r')"
proof (cases r)
  case Root
  then show ?thesis by (cases r') simp_all
next
  case (Named n)
  show ?thesis
  proof (cases "loggerDict st n")
    case None
    then show ?thesis using Named by (cases r') auto
  next
    case (Some e)
    then show ?thesis using Named by (cases e; cases r') auto
  qed
qed

lemma rel_option_same_refl [simp]: "rel_option same_settings x x"
  by (cases x) simp_all

lemma update_parent_same:
  "same_loggers st (update_logger st r (\<lambda>l. l\<lparr>parent := p\<rparr>))"
  unfolding same_loggers_def
proof
  fix r'
  show "rel_option same_settings (lookup_logger st r')
          (lookup_logger (update_logger st r (\<lambda>l. l\<lparr>parent := p\<rparr>)) r')"
    unfolding lookup_update_logger
    by (cases "r' = r"; cases "lookup_logger st r") (simp_all add: same_settings_def)
qed

lemma fixup_child_same: "same_loggers st (fixup_child aname c st)"
proof -
  have "same_loggers st
          (update_logger (update_logger st (Named aname) (\<lambda>l. l\<lparr>parent := p\<rparr>))
             (Named c) (\<lambda>l. l\<lparr>parent := q\<rparr>))" for p q
    using update_parent_same same_loggers_trans by blast
  then show ?thesis
    by (simp add: fixup_child_def split: option.splits)
qed

lemma fixupChildren_same: "same_loggers st (fixupChildren ph aname st)"
  unfolding fixupChildren_def
proof (induction ph arbitrary: st)
  case Nil
  show ?case by simp
next
  case (Cons c ph)
  have "same_loggers st (fixup_child aname c st)" by (rule fixup_child_same)
  moreover have "same_loggers (fixup_child aname c st) (fold (fixup_child aname) ph (fixup_child aname c st))"
    by (rule Cons.IH)
  ultimately show ?case using same_loggers_trans by simp
qed

lemma lookup_dict_cong:
  assumes "\<And>n. (case d n of Some (LoggerEntry l) \<Rightarrow> Some l | _ \<Rightarrow> None)
              = (case loggerDict st n of Some (LoggerEntry l) \<Rightarrow> Some l | _ \<Rightarrow> None)"
  shows "lookup_logger (st\<lparr>loggerDict := d\<rparr>) r = lookup_logger st r"
  using assms by (cases r) simp_all

lemma fixup_parents_loop_same:
  "fixup_parents_loop cands aname d = (rv, d') \<Longrightarrow>
   (case d' n of Some (LoggerEntry l) \<Rightarrow> Some l | _ \<Rightarrow> None)
     = (case d n of Some (LoggerEntry l) \<Rightarrow> Some l | _ \<Rightarrow> None)"
proof (induction cands aname d arbitrary: rv d' rule: fixup_parents_loop.induct)
  case (1 aname d)
  then show ?case by simp
next
  case (2 substr rest aname d)
  show ?case
  proof (cases "d substr")
    case None
    let ?d1 = "d(substr \<mapsto> PlaceHolder [aname])"
    have "fixup_parents_loop rest aname ?d1 = (rv, d')" using "2.prems" None by simp
    from "2.IH"(1)[OF None this]
    have "(case d' n of Some (LoggerEntry l) \<Rightarrow> Some l | _ \<Rightarrow> None)
          = (case ?d1 n of Some (LoggerEntry l) \<Rightarrow> Some l | _ \<Rightarrow> None)" .
    also have "\<dots> = (case d n of Some (LoggerEntry l) \<Rightarrow> Some l | _ \<Rightarrow> None)"
      using None by (cases "n = substr") simp_all
    finally show ?thesis .
  next
    case (Some e)
    show ?thesis
    proof (cases e)
      case (LoggerEntry obj)
      with "2.prems" Some show ?thesis by simp
    next
      case (PlaceHolder ms)
      let ?d1 = "d(substr \<mapsto> PlaceHolder (if aname \<in> set ms then ms else ms @ [aname]))"
      have "fixup_parents_loop rest aname ?d1 = (rv, d')" using "2.prems" Some PlaceHolder by simp
      from "2.IH"(2)[OF Some PlaceHolder this]
      have "(case d' n of Some (LoggerEntry l) \<Rightarrow> Some l | _ \<Rightarrow> None)
            = (case ?d1 n of Some (LoggerEntry l) \<Rightarrow> Some l | _ \<Rightarrow> None)" .
      also have "\<dots> = (case d n of Some (LoggerEntry l) \<Rightarrow> Some l | _ \<Rightarrow> None)"
        using Some PlaceHolder by (cases "n = substr") simp_all
      finally show ?thesis .
    qed
  qed
qed

lemma fixupParents_same: "same_loggers st (fixupParents aname st)"
proof -
  obtain rv d where l: "fixup_parents_loop (prefix_candidates aname (length aname) False) aname
      (loggerDict st) = (rv, d)" by (cases "fixup_parents_loop (prefix_candidates aname (length aname) False) aname (loggerDict st)")
  have "lookup_logger (st\<lparr>loggerDict := d\<rparr>) r = lookup_logger st r" for r
    by (rule lookup_dict_cong) (rule fixup_parents_loop_same[OF l])
  then have "same_loggers st (st\<lparr>loggerDict := d\<rparr>)"
    by (simp add: same_loggers_def option.rel_refl)
  moreover have "same_loggers (st\<lparr>loggerDict := d\<rparr>)
      (update_logger (st\<lparr>loggerDict := d\<rparr>) (Named aname)
            (\<lambda>l. l\<lparr>parent := Some (case rv of None \<Rightarrow> Root | Some r \<Rightarrow> r)\<rparr>))"
    by (rule update_parent_same)
  ultimately show ?thesis unfolding fixupParents_def l by (simp add: same_loggers_trans)
qed

lemma Manager_getLogger_lookup:
  "\<exists>l. lookup_logger (Manager_getLogger st name) (Named name) = Some l
       \<and> same_settings l (case lookup_logger st (Named name) of Some l0 \<Rightarrow> l0 | None \<Rightarrow> new_logger)"
proof -
  let ?st1 = "st\<lparr>loggerDict := (loggerDict st)(name \<mapsto> LoggerEntry new_logger)\<rparr>"
  have new: "\<exists>l. lookup_logger st2 (Named name) = Some l \<and> same_settings l new_logger"
    if "same_loggers ?st1 st2" for st2
  proof -
    have "rel_option same_settings (lookup_logger ?st1 (Named name)) (lookup_logger st2 (Named name))"
      using that unfolding same_loggers_def by blast
    moreover have "lookup_logger ?st1 (Named name) = Some new_logger" by simp
    ultimately have "rel_option same_settings (Some new_logger) (lookup_logger st2 (Named name))"
      by (simp only:)
    then obtain l where "lookup_logger st2 (Named name) = Some l" "same_settings new_logger l"
      unfolding option_rel_Some1 by blast
    then show ?thesis by (auto simp add: same_settings_def simp del: lookup_logger.simps)
  qed
  show ?thesis
  proof (cases "loggerDict st name")
    case None
    have "same_loggers ?st1 (fixupParents name ?st1)" by (rule fixupParents_same)
    from new[OF this] show ?thesis using None by (simp add: Manager_getLogger_def)
  next
    case (Some e)
    show ?thesis
    proof (cases e)
      case (LoggerEntry l0)
      then show ?thesis using Some by (simp add: Manager_getLogger_def)
    next
      case (PlaceHolder ph)
      have "same_loggers ?st1 (fixupParents name (fixupChildren ph name ?st1))"
        using fixupChildren_same fixupParents_same same_loggers_trans by blast
      from new[OF this] show ?thesis using Some PlaceHolder by (simp add: Manager_getLogger_def)
    qed
  qed
qed

lemma logging_getLogger_lookup:
  "\<exists>st1 l1. logging_getLogger st name
              = (if name = [] \<or> name = ''root'' then Root else Named name, st1)
     \<and> lookup_logger st1 (if name = [] \<or> name = ''root'' then Root else Named name) = Some l1
     \<and> same_settings l1
          (case lookup_logger st (if name = [] \<or> name = ''root'' then Root else Named name) of
             Some l0 \<Rightarrow> l0 | None \<Rightarrow> new_logger)"
proof (cases "name = [] \<or> name = ''root''")
  case True
  then show ?thesis by (simp add: logging_getLogger_def)
next
  case False
  then show ?thesis
    using Manager_getLogger_lookup[of st name]
    by (simp add: logging_getLogger_def del: lookup_logger.simps)
qed

lemma getLogger_ok:
  assumes "validation_search (if formatter = [] then default_format else formatter)"
    and "checkLevel lvl = Inr v"
  shows "\<exists>st' l.
      getLogger validation_search st name lvl formatter
        = (Inr (if name = [] \<or> name = ''root'' then Root else Named name), st')
    \<and> lookup_logger st' (if name = [] \<or> name = ''root'' then Root else Named name) = Some l
    \<and> level l = v \<and> \<not> propagate l
    \<and> handlers l =
        (case lookup_logger st (if name = [] \<or> name = ''root'' then Root else Named name) of
           Some l0 \<Rightarrow> handlers l0 | None \<Rightarrow> [])
        @ [\<lparr>hlevel = NOTSET, fmt = (if formatter = [] then default_format else formatter)\<rparr>]"
proof -
  let ?lg = "if name = [] \<or> name = ''root'' then Root else Named name"
  obtain st1 l1 where g: "logging_getLogger st name = (?lg, st1)"
    and l1: "lookup_logger st1 ?lg = Some l1"
    and s1: "same_settings l1 (case lookup_logger st ?lg of Some l0 \<Rightarrow> l0 | None \<Rightarrow> new_logger)"
    using logging_getLogger_lookup[of st name] by blast
  let ?h = "\<lparr>hlevel = NOTSET, fmt = (if formatter = [] then default_format else formatter)\<rparr>"
  let ?st2 = "update_logger st1 ?lg (\<lambda>l. l\<lparr>handlers := handlers l @ [?h]\<rparr>)"
  let ?st3 = "update_logger ?st2 ?lg (\<lambda>l. l\<lparr>level := v\<rparr>)"
  let ?st4 = "update_logger ?st3 ?lg (\<lambda>l. l\<lparr>propagate := False\<rparr>)"
  have f: "Formatter_new validation_search formatter
           = Inr (if formatter = [] then default_format else formatter)"
    using assms(1) by (simp add: Formatter_new_def Let_def)
  have res: "getLogger validation_search st name lvl formatter = (Inr ?lg, ?st4)"
    using assms(2) by (simp add: getLogger_def g f Let_def del: update_logger.simps)
  have l4: "lookup_logger ?st4 ?lg
            = Some (l1\<lparr>handlers := handlers l1 @ [?h], level := v, propagate := False\<rparr>)"
    by (simp only: lookup_update_logger l1 if_True option.map)
       simp
  have h: "handlers l1 = (case lookup_logger st ?lg of Some l0 \<Rightarrow> handlers l0 | None \<Rightarrow> [])"
    using s1 by (cases "lookup_logger st ?lg") (simp_all add: same_settings_def new_logger_def)
  show ?thesis
    using res l4 h by (intro exI[of _ ?st4] exI[of _ "l1\<lparr>handlers := handlers l1 @ [?h], level := v, propagate := False\<rparr>"]) simp
qed

lemma getEffectiveLevel_set:
  assumes "lookup_logger st lg = Some l" "level l \<noteq> 0"
  shows "getEffectiveLevel (Suc fuel) st (Some lg) = Some (level l)"
  using assms by simp

text \<open>
  C9 (amended). For every name, every level that \<^verbatim>\<open>setLevel\<close> accepts and that is not
  0 (\<^verbatim>\<open>NOTSET\<close>), and every format string that \<^verbatim>\<open>logging.Formatter\<close> accepts,
  \<^verbatim>\<open>Logger.getLogger\<close> returns the logger registered under that name (the root logger for
  the empty name and for \<open>root\<close>), with the requested level as its own and its effective
  level, propagation off, and one more console handler at the end of the handlers it had; the
  handler carries the given format, or the default format \<open>%(message)s\<close> when the given
  string is empty. A second such call with the same name returns the same logger, which
  then holds both handlers and has the level of the second call. Neither call raises.
\<close>

theorem getLogger_configures:
  assumes "validation_search (if formatter = [] then default_format else formatter)"
    and "checkLevel lvl = Inr v" and "v \<noteq> 0"
    and "validation_search (if formatter_b = [] then default_format else formatter_b)"
    and "checkLevel lvl_b = Inr v_b" and "v_b \<noteq> 0"
  shows "\<exists>st' l st'' l2.
      getLogger validation_search st name lvl formatter
        = (Inr (if name = [] \<or> name = ''root'' then Root else Named name), st')
    \<and> lookup_logger st' (if name = [] \<or> name = ''root'' then Root else Named name) = Some l
    \<and> level l = v \<and> \<not> propagate l
    \<and> handlers l =
        (case lookup_logger st (if name = [] \<or> name = ''root'' then Root else Named name) of
           Some l0 \<Rightarrow> handlers l0 | None \<Rightarrow> [])
        @ [\<lparr>hlevel = NOTSET, fmt = (if formatter = [] then default_format else formatter)\<rparr>]
    \<and> (\<forall>fuel. getEffectiveLevel (Suc fuel) st'
                 (Some (if name = [] \<or> name = ''root'' then Root else Named name)) = Some v)
    \<and> getLogger validation_search st' name lvl_b formatter_b
        = (Inr (if name = [] \<or> name = ''root'' then Root else Named name), st'')
    \<and> lookup_logger st'' (if name = [] \<or> name = ''root'' then Root else Named name) = Some l2
    \<and> level l2 = v_b \<and> \<not> propagate l2
    \<and> handlers l2 =
        (case lookup_logger st (if name = [] \<or> name = ''root'' then Root else Named name) of
           Some l0 \<Rightarrow> handlers l0 | None \<Rightarrow> [])
        @ [\<lparr>hlevel = NOTSET, fmt = (if formatter = [] then default_format else formatter)\<rparr>,
           \<lparr>hlevel = NOTSET, fmt = (if formatter_b = [] then default_format else formatter_b)\<rparr>]
    \<and> (\<forall>fuel. getEffectiveLevel (Suc fuel) st''
                 (Some (if name = [] \<or> name = ''root'' then Root else Named name)) = Some v_b)"
proof -
  let ?lg = "if name = [] \<or> name = ''root'' then Root else Named name"
  let ?old = "case lookup_logger st ?lg of Some l0 \<Rightarrow> handlers l0 | None \<Rightarrow> []"
  let ?h1 = "\<lparr>hlevel = NOTSET, fmt = (if formatter = [] then default_format else formatter)\<rparr>"
  let ?h2 = "\<lparr>hlevel = NOTSET, fmt = (if formatter_b = [] then default_format else formatter_b)\<rparr>"
  obtain st' l where 1: "getLogger validation_search st name lvl formatter = (Inr ?lg, st')"
    and l: "lookup_logger st' ?lg = Some l" "level l = v" "\<not> propagate l"
      "handlers l = ?old @ [?h1]"
    using getLogger_ok[where validation_search = validation_search and formatter = formatter
        and st = st and name = name, OF assms(1,2)] by blast
  obtain st'' l2 where 2: "getLogger validation_search st' name lvl_b formatter_b = (Inr ?lg, st'')"
    and l2: "lookup_logger st'' ?lg = Some l2" "level l2 = v_b" "\<not> propagate l2"
      "handlers l2 = (case lookup_logger st' ?lg of Some l0 \<Rightarrow> handlers l0 | None \<Rightarrow> [])
                       @ [?h2]"
    using getLogger_ok[where validation_search = validation_search and formatter = formatter_b
        and st = st' and name = name, OF assms(4,5)] by blast
  have h2: "handlers l2 = ?old @ [?h1, ?h2]"
    using l2(4) l(1,4) by (simp del: lookup_logger.simps)
  have e1: "\<forall>fuel. getEffectiveLevel (Suc fuel) st' (Some ?lg) = Some v"
    using getEffectiveLevel_set[OF l(1)] l(2) assms(3) by simp
  have e2: "\<forall>fuel. getEffectiveLevel (Suc fuel) st'' (Some ?lg) = Some v_b"
    using getEffectiveLevel_set[OF l2(1)] l2(2) assms(6) by simp
  show ?thesis
    using 1 l 2 l2(1-3) h2 e1 e2 by blast
qed

theorem getLogger_configures_witness:
  "\<exists>st' st'' l2.
      getLogger (\<lambda>s. s = ''%(message)s'' \<or> s = ''%(asctime)s %(message)s'')
          logging_initial ''energym'' (LevelInt 10) ''%(message)s''
        = (Inr (Named ''energym''), st')
    \<and> getLogger (\<lambda>s. s = ''%(message)s'' \<or> s = ''%(asctime)s %(message)s'')
          st' ''energym'' (LevelName ''INFO'') ''%(asctime)s %(message)s''
        = (Inr (Named ''energym''), st'')
    \<and> lookup_logger st'' (Named ''energym'') = Some l2
    \<and> level l2 = 20 \<and> \<not> propagate l2
    \<and> handlers l2 = [\<lparr>hlevel = NOTSET, fmt = ''%(message)s''\<rparr>,
                     \<lparr>hlevel = NOTSET, fmt = ''%(asctime)s %(message)s''\<rparr>]
    \<and> getEffectiveLevel 1 st'' (Some (Named ''energym'')) = Some 20"
proof -
  let ?V = "\<lambda>s. s = ''%(message)s'' \<or> s = ''%(asctime)s %(message)s''"
  have f1: "?V (if ''%(message)s'' = [] then default_format else ''%(message)s'')" by simp
  have f2: "?V (if ''%(asctime)s %(message)s'' = [] then default_format
                else ''%(asctime)s %(message)s'')" by simp
  have c1: "checkLevel (LevelInt 10) = Inr 10" by simp
  have c2: "checkLevel (LevelName ''INFO'') = Inr 20" by (simp add: nameToLevel_def)
  have n: "(10::int) \<noteq> 0" "(20::int) \<noteq> 0" by simp_all
  have old: "lookup_logger logging_initial (Named ''energym'') = None"
    by (simp add: logging_initial_def)
  have lg: "(if ''energym'' = [] \<or> ''energym'' = ''root'' then Root else Named ''energym'')
            = Named ''energym''" by simp
  have k1: "(if ''%(message)s'' = [] then default_format else ''%(message)s'') = ''%(message)s''"
    by simp
  have k2: "(if ''%(asctime)s %(message)s'' = [] then default_format
             else ''%(asctime)s %(message)s'') = ''%(asctime)s %(message)s''"
    by simp
  note T = getLogger_configures[where validation_search = ?V and formatter = "''%(message)s''"
      and formatter_b = "''%(asctime)s %(message)s''" and st = logging_initial
      and name = "''energym''", OF f1 c1 n(1) f2 c2 n(2),
      unfolded lg k1 k2 old option.case append_Nil]
  from T obtain st' st'' l2 where
    a: "getLogger ?V logging_initial ''energym'' (LevelInt 10) ''%(message)s''
        = (Inr (Named ''energym''), st')"
    and b: "getLogger ?V st' ''energym'' (LevelName ''INFO'') ''%(asctime)s %(message)s''
        = (Inr (Named ''energym''), st'')"
    and c: "lookup_logger st'' (Named ''energym'') = Some l2" "level l2 = 20" "\<not> propagate l2"
    and d: "handlers l2 = [\<lparr>hlevel = NOTSET, fmt = ''%(message)s''\<rparr>,
                     \<lparr>hlevel = NOTSET, fmt = ''%(asctime)s %(message)s''\<rparr>]"
    and e: "\<forall>fuel. getEffectiveLevel (Suc fuel) st'' (Some (Named ''energym'')) = Some 20"
    by blast
  have e1: "getEffectiveLevel 1 st'' (Some (Named ''energym'')) = Some 20"
    using e[rule_format, of 0] by (simp only: One_nat_def)
  show ?thesis using a b c d e1 by blast
qed

text \<open>
  The claim as written covers every level and every format string. Level 0 is
  \<^verbatim>\<open>NOTSET\<close>: the logger then takes its effective level from its parent, which for a
  fresh registry is the root logger at \<^verbatim>\<open>WARNING\<close>. And for the empty format string the
  handler carries the default format, not the given one.
\<close>

theorem getLogger_notset_effective_level:
  "fst (getLogger (\<lambda>s. s = ''%(message)s'') logging_initial ''energym'' (LevelInt 0) [])
     = Inr (Named ''energym'')
   \<and> getEffectiveLevel 2
        (snd (getLogger (\<lambda>s. s = ''%(message)s'') logging_initial ''energym'' (LevelInt 0) []))
        (Some (Named ''energym'')) = Some 30
   \<and> map_option handlers
        (lookup_logger
           (snd (getLogger (\<lambda>s. s = ''%(message)s'') logging_initial ''energym'' (LevelInt 0) []))
           (Named ''energym''))
       = Some [\<lparr>hlevel = NOTSET, fmt = ''%(message)s''\<rparr>]"
proof -
  have c: "prefix_candidates ''energym'' (length ''energym'') False = []" by simp
  have m: "Manager_getLogger logging_initial ''energym'' =
      logging_initial\<lparr>loggerDict := [''energym'' \<mapsto> LoggerEntry (new_logger\<lparr>parent := Some Root\<rparr>)]\<rparr>"
    by (simp add: Manager_getLogger_def logging_initial_def fixupParents_def c)
  have g: "getLogger (\<lambda>s. s = ''%(message)s'') logging_initial ''energym'' (LevelInt 0) [] =
      (Inr (Named ''energym''),
       logging_initial\<lparr>loggerDict := [''energym'' \<mapsto>
          LoggerEntry \<lparr>parent = Some Root, level = 0,
                       handlers = [\<lparr>hlevel = NOTSET, fmt = ''%(message)s''\<rparr>],
                       propagate = False\<rparr>]\<rparr>)"
    by (simp add: getLogger_def logging_getLogger_def m Formatter_new_def default_format_def
        Let_def new_logger_def NOTSET_def)
  show ?thesis
    unfolding g by (simp add: numeral_2_eq_2 logging_initial_def WARNING_def)
qed

text \<open>A format string in which the validation pattern is not found is refused.\<close>

lemma getLogger_invalid_format:
  assumes "formatter \<noteq> []" and "\<not> validation_search formatter"
  shows "fst (getLogger validation_search st name lvl formatter) = Inl ValueError"
  using assms
  by (simp add: getLogger_def Formatter_new_def Let_def split: prod.splits)


end
